(* ===== verification/Prelude.thy ===== *)
theory Prelude
  imports Main "HOL-Library.Word"
begin

text \<open>
  What every component of the development shares: the machine integers of the program, the
  outcome of a Rust function (a value, an error, a panic or the end of the process), actions
  that thread a state through such outcomes, runs of a state object, and the contract of an
  object whose operations keep an invariant and never panic.
\<close>

section \<open>Machine integers\<close>

text \<open>\<open>usize\<close> is taken at 64 bits, the width of the targets the program is built for.\<close>

type_synonym usize = "64 word"
type_synonym u64 = "64 word"
type_synonym u32 = "32 word"
type_synonym u16 = "16 word"
type_synonym byte = "8 word"

section \<open>Outcomes of a Rust function\<close>

text \<open>The reasons for which code of the repository can panic.\<close>

datatype panic =
    UnwrapNone          \<comment> \<open>\<open>unwrap\<close> on a \<open>None\<close>\<close>
  | UnwrapErr           \<comment> \<open>\<open>unwrap\<close> or \<open>expect\<close> on an \<open>Err\<close>\<close>
  | Explicit string     \<comment> \<open>\<open>panic!\<close> with its message\<close>
  | Unreachable         \<comment> \<open>\<open>unreachable!()\<close>\<close>
  | OutOfBounds         \<comment> \<open>an index behind the end of a vector\<close>
  | Overflow            \<comment> \<open>integer overflow in a build with overflow checks\<close>

text \<open>
  \<open>Exit\<close> is \<open>std::process::exit\<close>. A Rust \<open>Result\<close> is an outcome that is \<open>Ok\<close> or \<open>Err\<close>.
\<close>

datatype ('e, 'a) outcome = Ok 'a | Err 'e | Panic panic | Exit nat

text \<open>
  A method with a \<open>&mut self\<close> receiver: the state it leaves behind is returned whatever the
  outcome is, since an early \<open>return Err(..)\<close> keeps the writes made before it.
\<close>

type_synonym ('s, 'e, 'a) action = "'s \<Rightarrow> ('e, 'a) outcome \<times> 's"

fun is_panic :: "('e, 'a) outcome \<Rightarrow> bool" where
  "is_panic (Panic _) = True"
| "is_panic _ = False"

fun is_ok :: "('e, 'a) outcome \<Rightarrow> bool" where
  "is_ok (Ok _) = True"
| "is_ok _ = False"

lemma is_panic_iff: "is_panic r \<longleftrightarrow> (\<exists>p. r = Panic p)"
  by (cases r) auto

lemma is_ok_iff: "is_ok r \<longleftrightarrow> (\<exists>x. r = Ok x)"
  by (cases r) auto

text \<open>\<open>map_err\<close> also renders the \<open>From\<close> conversion that the \<open>?\<close> operator applies.\<close>

fun map_err :: "('e \<Rightarrow> 'f) \<Rightarrow> ('e, 'a) outcome \<Rightarrow> ('f, 'a) outcome" where
  "map_err f (Ok x) = Ok x"
| "map_err f (Err e) = Err (f e)"
| "map_err f (Panic p) = Panic p"
| "map_err f (Exit n) = Exit n"

fun map_ok :: "('a \<Rightarrow> 'b) \<Rightarrow> ('e, 'a) outcome \<Rightarrow> ('e, 'b) outcome" where
  "map_ok f (Ok x) = Ok (f x)"
| "map_ok f (Err e) = Err e"
| "map_ok f (Panic p) = Panic p"
| "map_ok f (Exit n) = Exit n"

lemma is_panic_map [simp]:
  "is_panic (map_err f r) = is_panic r"
  "is_panic (map_ok g r) = is_panic r"
  by (cases r; simp)+

text \<open>The \<open>?\<close> operator followed by the rest of the function.\<close>

definition and_then :: "('s, 'e, 'a) action \<Rightarrow> ('a \<Rightarrow> ('s, 'e, 'b) action) \<Rightarrow> ('s, 'e, 'b) action"
where
  "and_then m f s =
     (case m s of
        (Ok x, s') \<Rightarrow> f x s'
      | (Err e, s') \<Rightarrow> (Err e, s')
      | (Panic p, s') \<Rightarrow> (Panic p, s')
      | (Exit n, s') \<Rightarrow> (Exit n, s'))"

lemma and_then_Ok [simp]: "m s = (Ok x, s') \<Longrightarrow> and_then m f s = f x s'"
  and and_then_Err [simp]: "m s = (Err e, s') \<Longrightarrow> and_then m f s = (Err e, s')"
  and and_then_Panic [simp]: "m s = (Panic p, s') \<Longrightarrow> and_then m f s = (Panic p, s')"
  and and_then_Exit [simp]: "m s = (Exit n, s') \<Longrightarrow> and_then m f s = (Exit n, s')"
  by (simp_all add: and_then_def)

text \<open>Increment of an unsigned counter with \<open>+= 1\<close>: overflow panics in a debug build.\<close>

definition checked_succ :: "'n::len word \<Rightarrow> ('e, 'n word) outcome" where
  "checked_succ x = (if x = - 1 then Panic Overflow else Ok (x + 1))"

lemma unat_succ: "x \<noteq> - 1 \<Longrightarrow> unat (x + 1) = Suc (unat x)" for x :: "'n::len word"
  by (metis Suc_eq_plus1 add.commute add.inverse_inverse add_eq_0_iff unatSuc)

section \<open>Runs of a state object\<close>

text \<open>A sequence of operations, each with its outcome; the state is passed along.\<close>

fun run_ops :: "('op \<Rightarrow> 's \<Rightarrow> 'o \<times> 's) \<Rightarrow> 'op list \<Rightarrow> 's \<Rightarrow> 'o list \<times> 's" where
  "run_ops step [] s = ([], s)"
| "run_ops step (x # xs) s =
     (let (r, s') = step x s; (rs, s'') = run_ops step xs s' in (r # rs, s''))"

lemma run_ops_append:
  "snd (run_ops step (xs @ ys) s) = snd (run_ops step ys (snd (run_ops step xs s)))"
  by (induction xs arbitrary: s) (simp_all add: Let_def split_beta)

text \<open>
  The contract of an object: an invariant that holds at the start, that every operation keeps
  (its error returns included), and under which every operation has a good outcome, such as one
  that is not a panic.
\<close>

locale guarded_object =
  fixes step :: "'op \<Rightarrow> 's \<Rightarrow> 'o \<times> 's"
    and init :: 's
    and inv :: "'s \<Rightarrow> bool"
    and good :: "'o \<Rightarrow> bool"
  assumes init_inv: "inv init"
    and step_inv: "inv s \<Longrightarrow> inv (snd (step x s))"
    and step_good: "inv s \<Longrightarrow> good (fst (step x s))"
begin

lemma run_inv_from: "inv s \<Longrightarrow> inv (snd (run_ops step xs s))"
  by (induction xs arbitrary: s) (simp_all add: Let_def split_beta step_inv)

lemma run_inv: "inv (snd (run_ops step xs init))"
  by (rule run_inv_from) (rule init_inv)

lemma run_good_from: "inv s \<Longrightarrow> r \<in> set (fst (run_ops step xs s)) \<Longrightarrow> good r"
proof (induction xs arbitrary: s)
  case Nil
  then show ?case by simp
next
  case (Cons x xs)
  then have "inv (snd (step x s))" by (simp add: step_inv)
  with Cons show ?case
    by (auto simp: Let_def split_beta dest: step_good)
qed

lemma run_good: "r \<in> set (fst (run_ops step xs init)) \<Longrightarrow> good r"
  by (rule run_good_from) (rule init_inv)

end

text \<open>
  A simulation: the concrete steps, read through \<open>abs\<close> and \<open>obs\<close>, are the abstract ones as long
  as the invariant holds. Whole runs then agree, outputs and final states.
\<close>

locale simulation =
  fixes cstep :: "'op \<Rightarrow> 'c \<Rightarrow> 'o \<times> 'c"
    and astep :: "'op \<Rightarrow> 'a \<Rightarrow> 'p \<times> 'a"
    and abs :: "'c \<Rightarrow> 'a"
    and obs :: "'op \<Rightarrow> 'o \<Rightarrow> 'p"
    and inv :: "'c \<Rightarrow> bool"
  assumes sim_inv: "inv c \<Longrightarrow> inv (snd (cstep x c))"
    and sim_out: "inv c \<Longrightarrow> obs x (fst (cstep x c)) = fst (astep x (abs c))"
    and sim_state: "inv c \<Longrightarrow> abs (snd (cstep x c)) = snd (astep x (abs c))"
begin

lemma run_sim:
  "inv c \<Longrightarrow> map2 obs xs (fst (run_ops cstep xs c)) = fst (run_ops astep xs (abs c)) \<and>
     abs (snd (run_ops cstep xs c)) = snd (run_ops astep xs (abs c))"
  by (induction xs arbitrary: c)
     (simp_all add: Let_def split_beta sim_inv sim_out sim_state)

end

end
