(* ===== verification/Channel.thy ===== *)
theory Channel
  imports Prelude
begin

text \<open>
  The \<open>std::sync::mpsc\<close> channel as the access manager uses it: an unbounded queue, whose
  \<open>send\<close> fails only once the receiving half is dropped, and which \<open>try_iter().collect()\<close>
  empties. The locale states what a user of the channel relies on.
\<close>

record 'a channel =
  buffer :: "'a list"
  rx_alive :: bool

definition channel_new :: "'a channel" where
  "channel_new = \<lparr>buffer = [], rx_alive = True\<rparr>"

text \<open>A failed \<open>send\<close> gives the message back, as \<open>SendError\<close> does.\<close>

definition channel_send :: "'a \<Rightarrow> ('a channel, 'a, unit) action" where
  "channel_send x ch =
     (if rx_alive ch then (Ok (), ch\<lparr>buffer := buffer ch @ [x]\<rparr>) else (Err x, ch))"

definition try_iter :: "'a channel \<Rightarrow> 'a list \<times> 'a channel" where
  "try_iter ch = (buffer ch, ch\<lparr>buffer := []\<rparr>)"

text \<open>\<open>try_recv\<close> takes the oldest message, if there is one.\<close>

definition try_recv :: "'a channel \<Rightarrow> 'a option \<times> 'a channel" where
  "try_recv ch =
     (case buffer ch of [] \<Rightarrow> (None, ch) | x # xs \<Rightarrow> (Some x, ch\<lparr>buffer := xs\<rparr>))"

locale fifo =
  fixes new :: 'q
    and send :: "'m \<Rightarrow> ('q, 'm, unit) action"
    and drain :: "'q \<Rightarrow> 'm list \<times> 'q"
    and contents :: "'q \<Rightarrow> 'm list"
    and open_for :: "'q \<Rightarrow> bool"
  assumes new_contents: "contents new = []"
    and new_open: "open_for new"
    and send_ok: "open_for q \<Longrightarrow> fst (send m q) = Ok ()"
    and send_contents: "open_for q \<Longrightarrow> contents (snd (send m q)) = contents q @ [m]"
    and send_open: "open_for q \<Longrightarrow> open_for (snd (send m q))"
    and drain_contents: "fst (drain q) = contents q"
    and drain_empties: "contents (snd (drain q)) = []"
    and drain_open: "open_for q \<Longrightarrow> open_for (snd (drain q))"
begin

text \<open>Messages come out in the order of their \<open>send\<close>, behind what was queued before.\<close>

lemma sends_contents:
  "open_for q \<Longrightarrow> contents (snd (run_ops send ms q)) = contents q @ ms
     \<and> open_for (snd (run_ops send ms q))"
  by (induction ms arbitrary: q)
     (simp_all add: Let_def split_beta send_contents send_open)

lemma sends_ok: "open_for q \<Longrightarrow> r \<in> set (fst (run_ops send ms q)) \<Longrightarrow> r = Ok ()"
proof (induction ms arbitrary: q)
  case (Cons m ms)
  then show ?case
    using Cons.IH [of "snd (send m q)"] by (auto simp: Let_def split_beta send_ok send_open)
qed simp

lemma drain_after_sends: "fst (drain (snd (run_ops send ms new))) = ms"
  using sends_contents [OF new_open, of ms] by (simp add: drain_contents new_contents)

end

interpretation mpsc: fifo channel_new channel_send try_iter buffer rx_alive
  by unfold_locales (auto simp: channel_new_def channel_send_def try_iter_def)

lemma channel_send_alive:
  "rx_alive ch \<Longrightarrow> channel_send x ch = (Ok (), ch\<lparr>buffer := buffer ch @ [x]\<rparr>)"
  by (simp add: channel_send_def)

end
