(* ===== verification/Protocol.thy ===== *)
theory Protocol
  imports Prelude
begin

text \<open>
  The messages of \<open>src/protocol.rs\<close>. JSON is written and read by the \<open>serde_json\<close> crate,
  which is not part of the repository: its two functions are parameters, and what the program
  relies on of them is the hypothesis \<open>json_codec\<close>.
\<close>

type_synonym ProcId = usize
type_synonym KeyId = usize

text \<open>\<open>std::net::SocketAddr\<close>: address and port, for IPv6 also flow information and scope.\<close>

datatype SocketAddr =
    SocketAddrV4 u32 u16
  | SocketAddrV6 "128 word" u16 u32 u32

datatype RegistryResponse =
    Ack
  | Success KeyId
  | Wait KeyId
  | Holder KeyId SocketAddr
  | Error string

datatype RequestType = Create | Delete | Read | Write | Release

datatype RegistryMessage =
    Connection ProcId
  | ConnectionEstablished ProcId
  | Request ProcId RequestType KeyId
  | Response RegistryResponse
  | StopRequest

datatype DataMessage =
    DataRequest KeyId
  | DataResponse string

datatype Message =
    Registry RegistryMessage
  | Data DataMessage

section \<open>The macros that build messages\<close>

definition registry_request :: "KeyId \<Rightarrow> ProcId \<Rightarrow> RequestType \<Rightarrow> Message" where
  "registry_request key_id proc_id request_type = Registry (Request proc_id request_type key_id)"

definition registry_connection :: "ProcId \<Rightarrow> Message" where
  "registry_connection proc_id = Registry (Connection proc_id)"

definition registry_connection_established :: "ProcId \<Rightarrow> Message" where
  "registry_connection_established id_counter = Registry (ConnectionEstablished id_counter)"

definition registry_response :: "RegistryResponse \<Rightarrow> Message" where
  "registry_response resp = Registry (Response resp)"

definition registry_stop :: Message where
  "registry_stop = Registry StopRequest"

lemmas message_defs = registry_request_def registry_connection_def
  registry_connection_established_def registry_response_def registry_stop_def

section \<open>Serialisation\<close>

text \<open>An error of \<open>serde_json\<close> is kept as the text it displays.\<close>

type_synonym serde_error = string
type_synonym json_writer = "Message \<Rightarrow> (serde_error, byte list) outcome"
type_synonym json_reader = "byte list \<Rightarrow> (serde_error, Message) outcome"

abbreviation newline :: byte where
  "newline \<equiv> 10"

text \<open>One message on the wire is its JSON text and a newline.\<close>

definition to_vec :: "json_writer \<Rightarrow> Message \<Rightarrow> (serde_error, byte list) outcome" where
  "to_vec ser m = map_ok (\<lambda>data. data @ [newline]) (ser m)"

definition from_slice :: "json_reader \<Rightarrow> byte list \<Rightarrow> (serde_error, Message) outcome" where
  "from_slice de data = de data"

text \<open>
  What the program relies on of \<open>serde_json\<close>: both functions return (they give a value or an
  error), \<open>to_vec\<close> writes compact JSON, which has no raw newline, and \<open>from_slice\<close> reads back
  what \<open>to_vec\<close> wrote, trailing white space allowed.
\<close>

definition json_total :: "json_writer \<Rightarrow> json_reader \<Rightarrow> bool" where
  "json_total ser de \<longleftrightarrow>
     (\<forall>m. is_ok (ser m) \<or> (\<exists>e. ser m = Err e)) \<and> (\<forall>bs. is_ok (de bs) \<or> (\<exists>e. de bs = Err e))"

definition json_codec :: "json_writer \<Rightarrow> json_reader \<Rightarrow> bool" where
  "json_codec ser de \<longleftrightarrow> json_total ser de \<and>
     (\<forall>m bs. ser m = Ok bs \<longrightarrow>
        newline \<notin> set bs \<and> de bs = Ok m \<and> de (bs @ [newline]) = Ok m)"

lemma to_vec_roundtrip:
  "json_codec ser de \<Longrightarrow> to_vec ser m = Ok bs \<Longrightarrow> from_slice de bs = Ok m"
  by (cases "ser m") (auto simp: json_codec_def to_vec_def from_slice_def)

lemma json_totalD:
  assumes "json_total wr rd"
  shows "(\<exists>bs. wr m = Ok bs) \<or> (\<exists>e. wr m = Err e)" and "(\<exists>m. rd bs = Ok m) \<or> (\<exists>e. rd bs = Err e)"
  using assms by (auto simp: json_total_def is_ok_iff)

lemma to_vec_total:
  assumes "json_total wr rd"
  obtains bs where "to_vec wr m = Ok bs" | e where "to_vec wr m = Err e"
  using json_totalD(1) [OF assms, of m] by (auto simp: to_vec_def)

end
