(* ===== verification/Access_Manager.thy ===== *)
theory Access_Manager
  imports Channel Protocol
begin

text \<open>
  The access manager of \<open>src/access_manager.rs\<close>: one fair read-write lock per key, with a
  FIFO queue of pending requests, and a channel on which later grants are announced.

  The methods are actions on the record \<open>AccessManager\<close>. A \<open>HashSet\<close> is a set; its iteration
  order is not fixed by the language, so the one element that \<open>holder\<close> takes from it is chosen
  by a parameter \<open>pick\<close>, a new one for every call, of which \<open>hash_iter\<close> states what the
  library guarantees. Theorems that do not mention \<open>hash_iter\<close> hold for every choice.
\<close>

section \<open>State and errors\<close>

text \<open>The granted process, the key, the type of the request and the id of the holder.\<close>

type_synonym AccessGranted = "ProcId \<times> KeyId \<times> RequestType \<times> ProcId"

datatype AccessManagerError =
    SendError AccessGranted
  | RequestAccess ProcId KeyId
  | ReleaseAccess ProcId KeyId
  | KeyAccessed
  | KeyExists KeyId
  | KeyNotFound KeyId

record KeyState =
  pending_request :: "(ProcId \<times> RequestType) list"
  readers :: "ProcId set"
  writer :: "ProcId option"
  creator :: ProcId

text \<open>Both halves of the channel live in the manager, as the two fields of the struct do.\<close>

record AccessManager =
  access_granted :: "AccessGranted channel"
  key_states :: "KeyId \<rightharpoonup> KeyState"

type_synonym picker = "ProcId set \<Rightarrow> ProcId"
type_synonym 'a am_action = "(AccessManager, AccessManagerError, 'a) action"

definition hash_iter :: "picker \<Rightarrow> bool" where
  "hash_iter pick \<longleftrightarrow> (\<forall>S. S \<noteq> {} \<longrightarrow> pick S \<in> S)"

text \<open>One admissible order: ascending.\<close>

lemma hash_iter_Min: "hash_iter Min"
  by (simp add: hash_iter_def)

section \<open>Methods of a key state\<close>

definition new_key_state :: "ProcId \<Rightarrow> KeyState" where
  "new_key_state c = \<lparr>pending_request = [], readers = {}, writer = None, creator = c\<rparr>"

definition register_reader :: "ProcId \<Rightarrow> KeyState \<Rightarrow> KeyState" where
  "register_reader proc_id ks = ks\<lparr>readers := insert proc_id (readers ks)\<rparr>"

definition register_writer :: "ProcId \<Rightarrow> KeyState \<Rightarrow> KeyState" where
  "register_writer proc_id ks = ks\<lparr>writer := Some proc_id\<rparr>"

definition holder :: "picker \<Rightarrow> KeyState \<Rightarrow> ProcId" where
  "holder pick ks =
     (case writer ks of
        Some w \<Rightarrow> w
      | None \<Rightarrow> if readers ks \<noteq> {} then pick (readers ks) else creator ks)"

text \<open>The \<open>VecDeque\<close> operations: \<open>front\<close>, \<open>push_back\<close> and \<open>pop_front\<close>.\<close>

definition front :: "KeyState \<Rightarrow> (ProcId \<times> RequestType) option" where
  "front ks = (case pending_request ks of [] \<Rightarrow> None | r # _ \<Rightarrow> Some r)"

definition push_back :: "ProcId \<times> RequestType \<Rightarrow> KeyState \<Rightarrow> KeyState" where
  "push_back r ks = ks\<lparr>pending_request := pending_request ks @ [r]\<rparr>"

definition pop_front :: "KeyState \<Rightarrow> KeyState" where
  "pop_front ks = ks\<lparr>pending_request := tl (pending_request ks)\<rparr>"

section \<open>Methods of the access manager\<close>

definition new_access_manager :: AccessManager where
  "new_access_manager = \<lparr>access_granted = channel_new, key_states = Map.empty\<rparr>"

definition create :: "ProcId \<Rightarrow> KeyId \<Rightarrow> unit am_action" where
  "create proc_id key_id am =
     (if key_states am key_id \<noteq> None then (Err (KeyExists key_id), am)
      else (Ok (), am\<lparr>key_states := (key_states am)(key_id \<mapsto> new_key_state proc_id)\<rparr>))"

text \<open>\<open>get_key_state\<close> and \<open>get_key_state_mut\<close>: the entry, or \<open>KeyNotFound\<close>.\<close>

definition get_key_state :: "KeyId \<Rightarrow> KeyState am_action" where
  "get_key_state key_id am =
     (case key_states am key_id of
        None \<Rightarrow> (Err (KeyNotFound key_id), am)
      | Some ks \<Rightarrow> (Ok ks, am))"

text \<open>What is written through the \<open>&mut KeyState\<close> goes back to its entry.\<close>

definition put_key_state :: "KeyId \<Rightarrow> KeyState \<Rightarrow> AccessManager \<Rightarrow> AccessManager" where
  "put_key_state key_id ks am = am\<lparr>key_states := (key_states am)(key_id \<mapsto> ks)\<rparr>"

definition delete :: "KeyId \<Rightarrow> unit am_action" where
  "delete key_id =
     and_then (get_key_state key_id) (\<lambda>ks am.
       if readers ks \<noteq> {} \<or> writer ks \<noteq> None then (Err KeyAccessed, am)
       else (Ok (), am\<lparr>key_states := (key_states am)(key_id := None)\<rparr>))"

text \<open>
  The \<open>while let Some((proc_id, Read)) = front()\<close> loop: announce, register, pop; a failed
  \<open>send\<close> returns with what was done so far.
\<close>

function grant_reads ::
  "KeyId \<Rightarrow> ProcId \<Rightarrow> AccessGranted channel \<Rightarrow> KeyState \<Rightarrow>
     (AccessManagerError, unit) outcome \<times> AccessGranted channel \<times> KeyState"
where
  "grant_reads key_id hold ch ks =
     (case front ks of
        Some (proc_id, Read) \<Rightarrow>
          (case channel_send (proc_id, key_id, Read, hold) ch of
             (Ok _, ch') \<Rightarrow> grant_reads key_id hold ch' (pop_front (register_reader proc_id ks))
           | (Err m, ch') \<Rightarrow> (Err (SendError m), ch', ks)
           | (Panic p, ch') \<Rightarrow> (Panic p, ch', ks)
           | (Exit n, ch') \<Rightarrow> (Exit n, ch', ks))
      | _ \<Rightarrow> (Ok (), ch, ks))"
  by pat_completeness auto
termination
  by (relation "measure (\<lambda>(k, h, ch, ks). length (pending_request ks))")
     (auto simp: front_def pop_front_def register_reader_def split: list.splits)

declare grant_reads.simps [simp del]

definition handle_requesting :: "picker \<Rightarrow> KeyId \<Rightarrow> unit am_action" where
  "handle_requesting pick key_id am =
     (case key_states am key_id of
        None \<Rightarrow> (Panic UnwrapNone, am)
      | Some ks \<Rightarrow>
          (case front ks of
             None \<Rightarrow> (Ok (), am)
           | Some (proc_id, req_type) \<Rightarrow>
               (let hold = holder pick ks in
                case req_type of
                  Write \<Rightarrow>
                    (case channel_send (proc_id, key_id, Write, hold) (access_granted am) of
                       (Ok _, ch) \<Rightarrow>
                         (Ok (), put_key_state key_id (pop_front (register_writer proc_id ks))
                                   (am\<lparr>access_granted := ch\<rparr>))
                     | (Err m, ch) \<Rightarrow> (Err (SendError m), am\<lparr>access_granted := ch\<rparr>)
                     | (Panic p, ch) \<Rightarrow> (Panic p, am\<lparr>access_granted := ch\<rparr>)
                     | (Exit n, ch) \<Rightarrow> (Exit n, am\<lparr>access_granted := ch\<rparr>))
                | Read \<Rightarrow>
                    (let (r, ch, ks') = grant_reads key_id hold (access_granted am) ks
                     in (r, put_key_state key_id ks' (am\<lparr>access_granted := ch\<rparr>)))
                | _ \<Rightarrow> (Panic (Explicit ''Unexpected request type''), am))))"

definition read_access :: "picker \<Rightarrow> ProcId \<Rightarrow> KeyId \<Rightarrow> ProcId am_action" where
  "read_access pick proc_id key_id =
     and_then (get_key_state key_id) (\<lambda>ks am.
       let requesting_writer = (case front ks of Some (_, t) \<Rightarrow> t = Write | None \<Rightarrow> False) in
       if writer ks \<noteq> None \<or> requesting_writer then
         (Err (RequestAccess proc_id key_id), put_key_state key_id (push_back (proc_id, Read) ks) am)
       else
         (let ks' = register_reader proc_id ks
          in (Ok (holder pick ks'), put_key_state key_id ks' am)))"

definition release :: "picker \<Rightarrow> ProcId \<Rightarrow> KeyId \<Rightarrow> unit am_action" where
  "release pick proc_id key_id =
     and_then (get_key_state key_id) (\<lambda>ks am.
       let writer_release = (writer ks = Some proc_id);
           reader_release = (proc_id \<in> readers ks) in
       if \<not> writer_release \<and> \<not> reader_release then (Err (ReleaseAccess proc_id key_id), am)
       else if writer_release then
         handle_requesting pick key_id (put_key_state key_id (ks\<lparr>writer := None\<rparr>) am)
       else
         (let ks' = ks\<lparr>readers := readers ks - {proc_id}\<rparr>;
              am' = put_key_state key_id ks' am in
          if readers ks' = {} then handle_requesting pick key_id am' else (Ok (), am')))"

definition write_access :: "ProcId \<Rightarrow> KeyId \<Rightarrow> unit am_action" where
  "write_access proc_id key_id =
     and_then (get_key_state key_id) (\<lambda>ks am.
       if readers ks \<noteq> {} \<or> writer ks \<noteq> None then
         (Err (RequestAccess proc_id key_id), put_key_state key_id (push_back (proc_id, Write) ks) am)
       else (Ok (), put_key_state key_id (register_writer proc_id ks) am))"

text \<open>What the registry does with the receiving half: \<open>access_granted_rx.try_iter().collect()\<close>.\<close>

definition collect_granted :: "AccessManager \<Rightarrow> AccessGranted list \<times> AccessManager" where
  "collect_granted am =
     (let (gs, ch) = try_iter (access_granted am) in (gs, am\<lparr>access_granted := ch\<rparr>))"

section \<open>The invariant of a lock\<close>

text \<open>
  A key is idle when nobody holds it. The invariant of one key: a writer excludes readers; an
  idle key has no pending request; while readers hold the key, the first pending request is a
  write (a read would have been admitted); only reads and writes are ever pending.
\<close>

definition idle :: "KeyState \<Rightarrow> bool" where
  "idle ks \<longleftrightarrow> readers ks = {} \<and> writer ks = None"

definition lock_request :: "ProcId \<times> RequestType \<Rightarrow> bool" where
  "lock_request r \<longleftrightarrow> snd r = Read \<or> snd r = Write"

definition ks_inv :: "KeyState \<Rightarrow> bool" where
  "ks_inv ks \<longleftrightarrow>
     (writer ks \<noteq> None \<longrightarrow> readers ks = {}) \<and>
     (idle ks \<longrightarrow> pending_request ks = []) \<and>
     (readers ks \<noteq> {} \<longrightarrow> pending_request ks = [] \<or> snd (hd (pending_request ks)) = Write) \<and>
     list_all lock_request (pending_request ks)"

definition am_inv :: "AccessManager \<Rightarrow> bool" where
  "am_inv am \<longleftrightarrow> rx_alive (access_granted am) \<and>
     (\<forall>k ks. key_states am k = Some ks \<longrightarrow> ks_inv ks)"

lemma am_invI [intro?]:
  "rx_alive (access_granted am) \<Longrightarrow> (\<And>k ks. key_states am k = Some ks \<Longrightarrow> ks_inv ks) \<Longrightarrow> am_inv am"
  by (simp add: am_inv_def)

lemma am_invD [dest?]:
  assumes "am_inv am"
  shows "rx_alive (access_granted am)" and "key_states am k = Some ks \<Longrightarrow> ks_inv ks"
  using assms by (auto simp: am_inv_def)

section \<open>What is granted when a lock becomes free\<close>

text \<open>
  \<open>admit\<close> describes the effect of \<open>handle_requesting\<close> on one key: the first pending write, or
  all reads at the front of the queue.
\<close>

definition is_read :: "ProcId \<times> RequestType \<Rightarrow> bool" where
  "is_read r \<longleftrightarrow> snd r = Read"

definition admit :: "KeyState \<Rightarrow> (ProcId \<times> RequestType) list \<times> KeyState" where
  "admit ks =
     (case pending_request ks of
        [] \<Rightarrow> ([], ks)
      | (p, t) # rest \<Rightarrow>
          if t = Write then ([(p, t)], ks\<lparr>writer := Some p, pending_request := rest\<rparr>)
          else let rs = takeWhile is_read (pending_request ks) in
            (rs, ks\<lparr>readers := readers ks \<union> fst ` set rs,
                     pending_request := dropWhile is_read (pending_request ks)\<rparr>))"

definition announce :: "KeyId \<Rightarrow> ProcId \<Rightarrow> ProcId \<times> RequestType \<Rightarrow> AccessGranted" where
  "announce key_id hold r = (fst r, key_id, snd r, hold)"

lemmas ks_defs = new_key_state_def register_reader_def register_writer_def front_def
  push_back_def pop_front_def

lemma grant_reads_eq:
  assumes "rx_alive ch"
  shows "grant_reads k h ch ks =
     (Ok (),
      ch\<lparr>buffer := buffer ch @ map (announce k h) (takeWhile is_read (pending_request ks))\<rparr>,
      ks\<lparr>readers := readers ks \<union> fst ` set (takeWhile is_read (pending_request ks)),
         pending_request := dropWhile is_read (pending_request ks)\<rparr>)"
  using assms
proof (induction "pending_request ks" arbitrary: ks ch)
  case Nil
  then show ?case by (subst grant_reads.simps) (simp add: front_def flip: Nil.hyps)
next
  case (Cons r rest)
  obtain p t where r: "r = (p, t)" by (cases r)
  have pend: "pending_request ks = (p, t) # rest" using Cons.hyps(2) r by simp
  show ?case
  proof (cases "t = Read")
    case True
    let ?ks = "pop_front (register_reader p ks)"
    let ?ch = "ch\<lparr>buffer := buffer ch @ [(p, k, Read, h)]\<rparr>"
    have rest: "rest = pending_request ?ks"
      by (simp add: ks_defs pend)
    have "grant_reads k h ch ks = grant_reads k h ?ch ?ks"
      using True Cons.prems
      by (subst grant_reads.simps) (simp add: front_def pend channel_send_alive)
    also note Cons.hyps(1) [OF rest, of ?ch]
    finally show ?thesis
      using True Cons.prems
      by (simp add: pend is_read_def announce_def ks_defs)
  next
    case False
    then show ?thesis
      by (subst grant_reads.simps) (cases t; simp add: front_def pend is_read_def)
  qed
qed

lemma handle_requesting_eq:
  assumes "rx_alive (access_granted am)" and "key_states am k = Some ks"
    and "list_all lock_request (pending_request ks)"
  shows "handle_requesting pick k am =
     (Ok (),
      am\<lparr>access_granted := (access_granted am)\<lparr>buffer :=
             buffer (access_granted am) @ map (announce k (holder pick ks)) (fst (admit ks))\<rparr>,
         key_states := (key_states am)(k \<mapsto> snd (admit ks))\<rparr>)"
proof (cases "pending_request ks")
  case Nil
  with assms show ?thesis
    by (simp add: handle_requesting_def front_def admit_def fun_upd_idem)
next
  case (Cons r rest)
  obtain p t where r: "r = (p, t)" by (cases r)
  with Cons assms(3) have "t = Read \<or> t = Write" by (auto simp: lock_request_def)
  then show ?thesis
  proof
    assume "t = Read"
    with assms Cons r show ?thesis
      by (simp add: handle_requesting_def front_def admit_def put_key_state_def
          grant_reads_eq is_read_def Let_def)
  next
    assume "t = Write"
    with assms Cons r show ?thesis
      by (simp add: handle_requesting_def admit_def put_key_state_def
          channel_send_alive announce_def ks_defs)
  qed
qed

text \<open>Admission restores the invariant from a state in which only the holder was removed.\<close>

lemma list_all_dropWhile: "list_all P xs \<Longrightarrow> list_all P (dropWhile Q xs)"
  by (induction xs) auto

lemma hd_dropWhile_reads:
  "list_all lock_request xs \<Longrightarrow> dropWhile is_read xs = [] \<or> snd (hd (dropWhile is_read xs)) = Write"
  by (induction xs) (auto simp: lock_request_def is_read_def)

lemma admit_inv:
  assumes "idle ks" and "list_all lock_request (pending_request ks)"
  shows "ks_inv (snd (admit ks))"
proof (cases "pending_request ks")
  case Nil
  with assms show ?thesis by (simp add: admit_def ks_inv_def idle_def)
next
  case (Cons r rest)
  obtain p t where r: "r = (p, t)" by (cases r)
  show ?thesis
  proof (cases "t = Write")
    case True
    with assms Cons r show ?thesis by (simp add: admit_def ks_inv_def idle_def)
  next
    case False
    with assms Cons r have t: "t = Read" by (simp add: lock_request_def)
    have *: "p \<in> fst ` set (takeWhile is_read (pending_request ks))"
      using Cons r t by (simp add: is_read_def)
    then show ?thesis
      using assms Cons r t hd_dropWhile_reads [of "pending_request ks"]
        list_all_dropWhile [of lock_request "pending_request ks" is_read]
      by (auto simp: admit_def ks_inv_def idle_def Let_def)
  qed
qed

section \<open>The operations, branch by branch\<close>

lemma create_eq:
  "create p k am =
     (case key_states am k of
        Some _ \<Rightarrow> (Err (KeyExists k), am)
      | None \<Rightarrow> (Ok (), put_key_state k (new_key_state p) am))"
  by (simp add: create_def put_key_state_def split: option.splits)

lemma delete_eq:
  "delete k am =
     (case key_states am k of
        None \<Rightarrow> (Err (KeyNotFound k), am)
      | Some ks \<Rightarrow>
          if idle ks then (Ok (), am\<lparr>key_states := (key_states am)(k := None)\<rparr>)
          else (Err KeyAccessed, am))"
  by (auto simp: delete_def and_then_def get_key_state_def idle_def split: option.splits)

lemma read_access_eq:
  "read_access pick p k am =
     (case key_states am k of
        None \<Rightarrow> (Err (KeyNotFound k), am)
      | Some ks \<Rightarrow>
          if writer ks \<noteq> None \<or> (\<exists>w rest. pending_request ks = (w, Write) # rest)
          then (Err (RequestAccess p k), put_key_state k (push_back (p, Read) ks) am)
          else (Ok (holder pick (register_reader p ks)), put_key_state k (register_reader p ks) am))"
  by (auto simp: read_access_def and_then_def get_key_state_def front_def Let_def
      split: option.splits list.splits)

lemma write_access_eq:
  "write_access p k am =
     (case key_states am k of
        None \<Rightarrow> (Err (KeyNotFound k), am)
      | Some ks \<Rightarrow>
          if idle ks then (Ok (), put_key_state k (register_writer p ks) am)
          else (Err (RequestAccess p k), put_key_state k (push_back (p, Write) ks) am))"
  by (auto simp: write_access_def and_then_def get_key_state_def idle_def split: option.splits)

text \<open>The key state a release leaves before the queue is served, if the process holds the key.\<close>

definition drop_holder :: "ProcId \<Rightarrow> KeyState \<Rightarrow> KeyState option" where
  "drop_holder p ks =
     (if writer ks = Some p then Some (ks\<lparr>writer := None\<rparr>)
      else if p \<in> readers ks then Some (ks\<lparr>readers := readers ks - {p}\<rparr>)
      else None)"

lemma drop_holder_facts:
  assumes "drop_holder p ks = Some ks'"
  shows "pending_request ks' = pending_request ks" and "creator ks' = creator ks"
  using assms by (auto simp: drop_holder_def split: if_splits)

lemma release_eq:
  assumes inv: "am_inv am"
  shows "release pick p k am =
     (case key_states am k of
        None \<Rightarrow> (Err (KeyNotFound k), am)
      | Some ks \<Rightarrow>
          (case drop_holder p ks of
             None \<Rightarrow> (Err (ReleaseAccess p k), am)
           | Some ks' \<Rightarrow>
               if idle ks' then
                 (Ok (),
                  am\<lparr>access_granted := (access_granted am)\<lparr>buffer := buffer (access_granted am) @
                         map (announce k (creator ks)) (fst (admit ks'))\<rparr>,
                     key_states := (key_states am)(k \<mapsto> snd (admit ks'))\<rparr>)
               else (Ok (), put_key_state k ks' am)))"
proof (cases "key_states am k")
  case None
  then show ?thesis by (simp add: release_def and_then_def get_key_state_def)
next
  case (Some ks)
  from inv Some have ks: "ks_inv ks" and alive: "rx_alive (access_granted am)"
    by (auto dest: am_invD)
  show ?thesis
  proof (cases "drop_holder p ks")
    case None
    with Some show ?thesis
      by (auto simp: release_def and_then_def get_key_state_def drop_holder_def Let_def
          split: if_splits)
  next
    case (Some ks')
    note ks' = this
    let ?am = "put_key_state k ks' am"
    have pend: "list_all lock_request (pending_request ks')"
      using ks drop_holder_facts(1) [OF ks'] by (simp add: ks_inv_def)
    have hold: "idle ks' \<Longrightarrow> holder pick ks' = creator ks"
      using drop_holder_facts(2) [OF ks'] by (simp add: holder_def idle_def)
    have idle_iff: "idle ks' \<longleftrightarrow> writer ks = Some p \<or> readers ks' = {}"
      using ks ks' by (auto simp: ks_inv_def drop_holder_def idle_def split: if_splits)
    have rel: "release pick p k am =
        (if idle ks' then handle_requesting pick k ?am else (Ok (), ?am))"
      using \<open>key_states am k = Some ks\<close> ks' idle_iff
      by (auto simp: release_def and_then_def get_key_state_def drop_holder_def Let_def
          split: if_splits)
    have "handle_requesting pick k ?am =
        (Ok (),
         ?am\<lparr>access_granted := (access_granted am)\<lparr>buffer := buffer (access_granted am) @
                map (announce k (holder pick ks')) (fst (admit ks'))\<rparr>,
            key_states := (key_states am)(k \<mapsto> snd (admit ks'))\<rparr>)"
      using handle_requesting_eq [of ?am k ks' pick] pend alive by (simp add: put_key_state_def)
    with \<open>key_states am k = Some ks\<close> ks' rel hold show ?thesis
      by (simp add: put_key_state_def)
  qed
qed

section \<open>Every operation keeps the invariant and does not panic\<close>

lemma put_key_state_inv: "am_inv am \<Longrightarrow> ks_inv ks \<Longrightarrow> am_inv (put_key_state k ks am)"
  by (auto simp: am_inv_def put_key_state_def)

lemma new_key_state_inv [intro]: "ks_inv (new_key_state p)"
  by (simp add: ks_inv_def new_key_state_def)

lemma push_back_inv:
  "ks_inv ks \<Longrightarrow> \<not> idle ks \<Longrightarrow> lock_request r \<Longrightarrow>
     (readers ks \<noteq> {} \<Longrightarrow> pending_request ks = [] \<Longrightarrow> snd r = Write) \<Longrightarrow>
     ks_inv (push_back r ks)"
  by (auto simp: ks_inv_def push_back_def idle_def hd_append)

lemma register_reader_inv:
  "ks_inv ks \<Longrightarrow> writer ks = None \<Longrightarrow>
     \<nexists>w rest. pending_request ks = (w, Write) # rest \<Longrightarrow> ks_inv (register_reader p ks)"
  by (cases "pending_request ks") (auto simp: ks_inv_def register_reader_def idle_def)

lemma register_writer_inv: "ks_inv ks \<Longrightarrow> idle ks \<Longrightarrow> ks_inv (register_writer p ks)"
  by (auto simp: ks_inv_def register_writer_def idle_def)

lemma drop_holder_inv:
  "ks_inv ks \<Longrightarrow> drop_holder p ks = Some ks' \<Longrightarrow> \<not> idle ks' \<Longrightarrow> ks_inv ks'"
  by (auto simp: ks_inv_def drop_holder_def idle_def split: if_splits)

lemma new_access_manager_inv [intro]: "am_inv new_access_manager"
  by (simp add: am_inv_def new_access_manager_def channel_new_def)

lemma create_inv: "am_inv am \<Longrightarrow> am_inv (snd (create p k am))"
  by (auto simp: create_eq intro: put_key_state_inv split: option.splits)

lemma delete_inv: "am_inv am \<Longrightarrow> am_inv (snd (delete k am))"
  by (auto simp: delete_eq am_inv_def split: option.splits if_splits)

lemma write_access_inv:
  assumes "am_inv am"
  shows "am_inv (snd (write_access p k am))"
proof (cases "key_states am k")
  case None
  with assms show ?thesis by (simp add: write_access_eq)
next
  case (Some ks)
  then have "ks_inv ks" using assms by (rule am_invD(2) [rotated])
  then have "\<not> idle ks \<Longrightarrow> ks_inv (push_back (p, Write) ks)"
    by (auto intro: push_back_inv simp: lock_request_def)
  with \<open>ks_inv ks\<close> assms Some show ?thesis
    by (simp add: write_access_eq put_key_state_inv register_writer_inv)
qed

lemma read_access_inv:
  assumes "am_inv am"
  shows "am_inv (snd (read_access pick p k am))"
proof (cases "key_states am k")
  case None
  with assms show ?thesis by (simp add: read_access_eq)
next
  case (Some ks)
  then have ks: "ks_inv ks" using assms by (rule am_invD(2) [rotated])
  let ?busy = "writer ks \<noteq> None \<or> (\<exists>w rest. pending_request ks = (w, Write) # rest)"
  have "?busy \<Longrightarrow> ks_inv (push_back (p, Read) ks)"
    by (rule push_back_inv [OF ks]) (use ks in \<open>auto simp: ks_inv_def idle_def lock_request_def\<close>)
  moreover have "\<not> ?busy \<Longrightarrow> ks_inv (register_reader p ks)"
    by (rule register_reader_inv [OF ks]) auto
  ultimately show ?thesis
    using assms Some by (simp add: read_access_eq put_key_state_inv)
qed

lemma release_inv:
  assumes "am_inv am"
  shows "am_inv (snd (release pick p k am))"
proof (cases "key_states am k")
  case None
  with assms show ?thesis by (simp add: release_eq)
next
  case (Some ks)
  then have ks: "ks_inv ks" using assms by (rule am_invD(2) [rotated])
  show ?thesis
  proof (cases "drop_holder p ks")
    case None
    with assms Some show ?thesis by (simp add: release_eq)
  next
    case (Some ks')
    have "list_all lock_request (pending_request ks')"
      using ks drop_holder_facts(1) [OF Some] by (simp add: ks_inv_def)
    then have "idle ks' \<Longrightarrow> ks_inv (snd (admit ks'))" by (rule admit_inv [rotated])
    moreover have "\<not> idle ks' \<Longrightarrow> ks_inv ks'" using ks Some by (rule drop_holder_inv)
    ultimately show ?thesis
      using assms \<open>key_states am k = Some ks\<close> Some
      by (auto simp: release_eq am_inv_def put_key_state_def)
  qed
qed

lemma collect_granted_inv: "am_inv am \<Longrightarrow> am_inv (snd (collect_granted am))"
  by (auto simp: am_inv_def collect_granted_def try_iter_def)

lemmas am_op_invs = create_inv delete_inv read_access_inv write_access_inv release_inv
  collect_granted_inv

section \<open>The manager as an object\<close>

text \<open>
  A call of the manager as the registry makes it: one of the five requests, or the collection of
  the announced grants. Each call comes with its own hash iteration order.
\<close>

datatype am_op = Call ProcId RequestType KeyId | Collect

fun am_step :: "picker \<times> am_op \<Rightarrow> ProcId option am_action" where
  "am_step (pick, Call p Create k) am = apfst (map_ok (\<lambda>_. None)) (create p k am)"
| "am_step (pick, Call p Delete k) am = apfst (map_ok (\<lambda>_. None)) (delete k am)"
| "am_step (pick, Call p Read k) am = apfst (map_ok Some) (read_access pick p k am)"
| "am_step (pick, Call p Write k) am = apfst (map_ok (\<lambda>_. None)) (write_access p k am)"
| "am_step (pick, Call p Release k) am = apfst (map_ok (\<lambda>_. None)) (release pick p k am)"
| "am_step (pick, Collect) am = (Ok None, snd (collect_granted am))"

lemma am_step_cases:
  obtains (on_create) pick p k where "x = (pick, Call p Create k)"
  | (on_delete) pick p k where "x = (pick, Call p Delete k)"
  | (on_read) pick p k where "x = (pick, Call p Read k)"
  | (on_write) pick p k where "x = (pick, Call p Write k)"
  | (on_release) pick p k where "x = (pick, Call p Release k)"
  | (on_collect) pick where "x = (pick, Collect)"
proof -
  obtain pick c where x: "x = (pick, c)" by (cases x)
  show thesis
  proof (cases c)
    case (Call p t k)
    with x that show thesis by (cases t) simp_all
  next
    case Collect
    with x that(6) show thesis by simp
  qed
qed

lemma am_step_inv: "am_inv am \<Longrightarrow> am_inv (snd (am_step x am))"
  by (cases x rule: am_step_cases) (simp_all add: am_op_invs)

text \<open>A good outcome: a value, or an error that is not a failed \<open>send\<close>; no panic.\<close>

definition am_good :: "(AccessManagerError, 'a) outcome \<Rightarrow> bool" where
  "am_good r \<longleftrightarrow> is_ok r \<or> (\<exists>e. r = Err e \<and> (\<forall>m. e \<noteq> SendError m))"

lemma am_good_simps [simp]:
  "am_good (Ok x)"
  "am_good (Err e) \<longleftrightarrow> (\<forall>m. e \<noteq> SendError m)"
  "\<not> am_good (Panic p)"
  "\<not> am_good (Exit n)"
  by (auto simp: am_good_def)

lemma am_step_good:
  assumes "am_inv am"
  shows "am_good (fst (am_step x am))"
  by (cases x rule: am_step_cases)
     (use assms in \<open>auto simp: create_eq delete_eq read_access_eq write_access_eq release_eq
        split: option.splits\<close>)

interpretation lockman: guarded_object am_step new_access_manager am_inv am_good
  by unfold_locales (auto intro: am_step_inv am_step_good)

text \<open>The states a manager can be in: reached from a new one by any calls in any order.\<close>

inductive am_reachable :: "AccessManager \<Rightarrow> bool" where
  start: "am_reachable new_access_manager"
| step: "am_reachable am \<Longrightarrow> am_reachable (snd (am_step x am))"

lemma am_reachable_inv: "am_reachable am \<Longrightarrow> am_inv am"
  by (induction rule: am_reachable.induct) (auto intro: am_step_inv)

lemma am_reachable_ks_inv: "am_reachable am \<Longrightarrow> key_states am k = Some ks \<Longrightarrow> ks_inv ks"
  using am_reachable_inv am_invD(2) by blast

lemma am_reachable_run: "am_reachable (snd (run_ops am_step xs new_access_manager))"
proof (induction xs rule: rev_induct)
  case Nil
  then show ?case by (simp add: am_reachable.start)
next
  case (snoc x xs)
  then show ?case
    by (simp add: run_ops_append Let_def split_beta am_reachable.step)
qed

end
