(* ===== verification/Fair_Lock.thy ===== *)
theory Fair_Lock
  imports Access_Manager
begin

text \<open>
  The abstract specification of the access manager: a fair read-write lock per key, written
  without the program's data structures, and the refinement: on every reachable state, every
  call of the manager does what the specification says, announcements included.

  A lock is free, shared by a set of readers or owned by one writer, with a FIFO queue of
  waiting requests. A request that finds the lock compatible and the queue empty is granted;
  any other waits. When the last holder leaves, the longest compatible prefix of the queue gets
  the lock.
\<close>

section \<open>Specification of one lock\<close>

datatype lock = Free | Shared "ProcId set" | Exclusive ProcId

datatype mode = SharedMode | ExclusiveMode

type_synonym fair_lock = "lock \<times> (ProcId \<times> mode) list"

fun acquire :: "ProcId \<times> mode \<Rightarrow> fair_lock \<Rightarrow> bool \<times> fair_lock" where
  "acquire (p, SharedMode) (Free, []) = (True, Shared {p}, [])"
| "acquire (p, ExclusiveMode) (Free, []) = (True, Exclusive p, [])"
| "acquire (p, SharedMode) (Shared R, []) = (True, Shared (insert p R), [])"
| "acquire r (l, q) = (False, l, q @ [r])"

definition shared_request :: "ProcId \<times> mode \<Rightarrow> bool" where
  "shared_request r \<longleftrightarrow> snd r = SharedMode"

fun serve :: "(ProcId \<times> mode) list \<Rightarrow> (ProcId \<times> mode) list \<times> fair_lock" where
  "serve [] = ([], Free, [])"
| "serve ((p, ExclusiveMode) # q) = ([(p, ExclusiveMode)], Exclusive p, q)"
| "serve ((p, SharedMode) # q) =
     ((p, SharedMode) # takeWhile shared_request q,
      Shared (insert p (fst ` set (takeWhile shared_request q))), dropWhile shared_request q)"

fun holds :: "ProcId \<Rightarrow> lock \<Rightarrow> bool" where
  "holds p Free = False"
| "holds p (Shared R) = (p \<in> R)"
| "holds p (Exclusive w) = (p = w)"

fun leave :: "ProcId \<Rightarrow> fair_lock \<Rightarrow> (ProcId \<times> mode) list \<times> fair_lock" where
  "leave p (Shared R, q) = (if R - {p} = {} then serve q else ([], Shared (R - {p}), q))"
| "leave p (l, q) = serve q"

section \<open>Specification of the manager\<close>

type_synonym lock_table = "KeyId \<rightharpoonup> fair_lock"

datatype verdict = Granted | Queued | Done | NoKey | KeyTaken | InUse | NotHolder

fun spec_step :: "ProcId \<Rightarrow> RequestType \<Rightarrow> KeyId \<Rightarrow> lock_table \<Rightarrow>
    verdict \<times> (ProcId \<times> mode) list \<times> lock_table" where
  "spec_step p Create k T =
     (case T k of None \<Rightarrow> (Done, [], T(k \<mapsto> (Free, []))) | Some _ \<Rightarrow> (KeyTaken, [], T))"
| "spec_step p Delete k T =
     (case T k of
        None \<Rightarrow> (NoKey, [], T)
      | Some (l, q) \<Rightarrow> if l = Free then (Done, [], T(k := None)) else (InUse, [], T))"
| "spec_step p Read k T =
     (case T k of
        None \<Rightarrow> (NoKey, [], T)
      | Some f \<Rightarrow> (let (ok, f') = acquire (p, SharedMode) f
                   in (if ok then Granted else Queued, [], T(k \<mapsto> f'))))"
| "spec_step p Write k T =
     (case T k of
        None \<Rightarrow> (NoKey, [], T)
      | Some f \<Rightarrow> (let (ok, f') = acquire (p, ExclusiveMode) f
                   in (if ok then Granted else Queued, [], T(k \<mapsto> f'))))"
| "spec_step p Release k T =
     (case T k of
        None \<Rightarrow> (NoKey, [], T)
      | Some f \<Rightarrow>
          if holds p (fst f) then (let (gs, f') = leave p f in (Done, gs, T(k \<mapsto> f')))
          else (NotHolder, [], T))"

section \<open>Abstraction\<close>

definition mode_of :: "RequestType \<Rightarrow> mode" where
  "mode_of t = (if t = Read then SharedMode else ExclusiveMode)"

definition abs_request :: "ProcId \<times> RequestType \<Rightarrow> ProcId \<times> mode" where
  "abs_request r = (fst r, mode_of (snd r))"

definition abs_lock :: "KeyState \<Rightarrow> fair_lock" where
  "abs_lock ks =
     ((case writer ks of
         Some w \<Rightarrow> Exclusive w
       | None \<Rightarrow> if readers ks = {} then Free else Shared (readers ks)),
      map abs_request (pending_request ks))"

definition abs_table :: "AccessManager \<Rightarrow> lock_table" where
  "abs_table am = (\<lambda>k. map_option abs_lock (key_states am k))"

text \<open>How the specification reads the result of a call.\<close>

fun verdict_of :: "RequestType \<Rightarrow> (AccessManagerError, 'a) outcome \<Rightarrow> verdict option" where
  "verdict_of t (Ok _) = Some (if t = Read \<or> t = Write then Granted else Done)"
| "verdict_of t (Err (RequestAccess _ _)) = Some Queued"
| "verdict_of t (Err (KeyNotFound _)) = Some NoKey"
| "verdict_of t (Err (KeyExists _)) = Some KeyTaken"
| "verdict_of t (Err KeyAccessed) = Some InUse"
| "verdict_of t (Err (ReleaseAccess _ _)) = Some NotHolder"
| "verdict_of t _ = None"

text \<open>An announcement of the channel, without key and data holder.\<close>

definition abs_grant :: "AccessGranted \<Rightarrow> ProcId \<times> mode" where
  "abs_grant g = (case g of (p, k, t, h) \<Rightarrow> (p, mode_of t))"

text \<open>
  One round of the registry: a call, then the collection of what it announced
  (\<open>handle_message\<close> and \<open>try_iter\<close> in \<open>handle_request\<close>).
\<close>

type_synonym call = "picker \<times> ProcId \<times> RequestType \<times> KeyId"

fun am_call :: "call \<Rightarrow> AccessManager \<Rightarrow>
    ((AccessManagerError, ProcId option) outcome \<times> AccessGranted list) \<times> AccessManager" where
  "am_call (pick, p, t, k) am =
     (let (r, am1) = am_step (pick, Call p t k) am;
          (gs, am2) = collect_granted am1
      in ((r, gs), am2))"

fun spec_call :: "call \<Rightarrow> lock_table \<Rightarrow> (verdict option \<times> (ProcId \<times> mode) list) \<times> lock_table" where
  "spec_call (pick, p, t, k) T = (let (v, gs, T') = spec_step p t k T in ((Some v, gs), T'))"

fun observe :: "call \<Rightarrow> (AccessManagerError, ProcId option) outcome \<times> AccessGranted list \<Rightarrow>
    verdict option \<times> (ProcId \<times> mode) list" where
  "observe (pick, p, t, k) (r, gs) = (verdict_of t r, map abs_grant gs)"

definition quiet_inv :: "AccessManager \<Rightarrow> bool" where
  "quiet_inv am \<longleftrightarrow> am_inv am \<and> buffer (access_granted am) = []"

section \<open>Admission is \<open>serve\<close>\<close>

lemma shared_request_abs: "shared_request (abs_request r) = is_read r" for r
  by (simp add: shared_request_def abs_request_def is_read_def mode_of_def)

lemma takeWhile_abs:
  "takeWhile shared_request (map abs_request rs) = map abs_request (takeWhile is_read rs)"
  by (induction rs) (auto simp: shared_request_abs)

lemma dropWhile_abs:
  "dropWhile shared_request (map abs_request rs) = map abs_request (dropWhile is_read rs)"
  by (induction rs) (auto simp: shared_request_abs)

lemma admit_serve:
  assumes "idle ks" and "list_all lock_request (pending_request ks)"
  shows "serve (map abs_request (pending_request ks)) =
     (map abs_request (fst (admit ks)), abs_lock (snd (admit ks)))"
proof (cases "pending_request ks")
  case Nil
  with assms show ?thesis by (simp add: admit_def abs_lock_def idle_def)
next
  case (Cons r rest)
  obtain p t where r: "r = (p, t)" by (cases r)
  with Cons assms(2) have "t = Read \<or> t = Write" by (auto simp: lock_request_def)
  then show ?thesis
  proof
    assume t: "t = Read"
    have req: "abs_request (p, Read) = (p, SharedMode)" by (simp add: abs_request_def mode_of_def)
    have img: "fst ` abs_request ` A = fst ` A" for A by (force simp: abs_request_def)
    show ?thesis
      using assms t r Cons
      by (simp add: req admit_def abs_lock_def idle_def is_read_def takeWhile_abs dropWhile_abs
          img Let_def)
  next
    assume t: "t = Write"
    then show ?thesis
      using assms r Cons
      by (simp add: admit_def abs_lock_def abs_request_def mode_of_def)
  qed
qed

lemma abs_announce: "list_all lock_request rs \<Longrightarrow>
    map (abs_grant \<circ> announce k h) rs = map abs_request rs"
  by (induction rs) (auto simp: abs_grant_def announce_def abs_request_def)

section \<open>Each operation refines its specification\<close>

lemma abs_table_put [simp]:
  "abs_table (put_key_state k ks am) = (abs_table am)(k \<mapsto> abs_lock ks)"
  by (auto simp: abs_table_def put_key_state_def)

lemma abs_table_update [simp]:
  "abs_table (am\<lparr>access_granted := ch, key_states := m\<rparr>) = (\<lambda>k. map_option abs_lock (m k))"
  "abs_table (am\<lparr>key_states := m\<rparr>) = (\<lambda>k. map_option abs_lock (m k))"
  "abs_table (am\<lparr>access_granted := ch\<rparr>) = abs_table am"
  by (auto simp: abs_table_def)

lemma abs_lock_new [simp]: "abs_lock (new_key_state p) = (Free, [])"
  by (simp add: abs_lock_def new_key_state_def)

lemma abs_lock_Free: "ks_inv ks \<Longrightarrow> fst (abs_lock ks) = Free \<longleftrightarrow> idle ks"
  by (auto simp: abs_lock_def idle_def split: option.splits)

lemma abs_lock_cases [consumes 1, case_names idle shared exclusive]:
  assumes "ks_inv ks"
  obtains "abs_lock ks = (Free, [])" and "idle ks" and "pending_request ks = []"
  | "abs_lock ks = (Shared (readers ks), map abs_request (pending_request ks))"
      and "readers ks \<noteq> {}" and "writer ks = None"
  | w where "abs_lock ks = (Exclusive w, map abs_request (pending_request ks))"
      and "readers ks = {}" and "writer ks = Some w"
  using assms
  by (cases "writer ks"; cases "readers ks = {}") (auto simp: abs_lock_def ks_inv_def idle_def)

lemma acquire_shared:
  assumes "ks_inv ks"
  shows "acquire (p, SharedMode) (abs_lock ks) =
     (if writer ks \<noteq> None \<or> (\<exists>w rest. pending_request ks = (w, Write) # rest)
      then (False, abs_lock (push_back (p, Read) ks))
      else (True, abs_lock (register_reader p ks)))"
  using assms
proof (cases ks rule: abs_lock_cases)
  case idle
  then show ?thesis
    by (simp add: idle_def abs_lock_def register_reader_def)
next
  case shared
  show ?thesis
  proof (cases "pending_request ks")
    case Nil
    with shared show ?thesis by (simp add: abs_lock_def register_reader_def)
  next
    case (Cons r rest)
    with assms shared have "snd r = Write" by (simp add: ks_inv_def)
    with Cons shared show ?thesis
      by (cases r)
         (simp add: abs_lock_def push_back_def abs_request_def mode_of_def)
  qed
next
  case (exclusive w)
  then show ?thesis
    by (simp add: abs_lock_def push_back_def abs_request_def mode_of_def)
qed

lemma acquire_exclusive:
  assumes "ks_inv ks"
  shows "acquire (p, ExclusiveMode) (abs_lock ks) =
     (if idle ks then (True, abs_lock (register_writer p ks))
      else (False, abs_lock (push_back (p, Write) ks)))"
  using assms
proof (cases ks rule: abs_lock_cases)
  case idle
  then show ?thesis by (simp add: abs_lock_def register_writer_def idle_def)
next
  case shared
  then show ?thesis
    by (simp add: idle_def abs_lock_def push_back_def abs_request_def mode_of_def)
next
  case (exclusive w)
  then show ?thesis
    by (simp add: idle_def abs_lock_def push_back_def abs_request_def mode_of_def)
qed

lemma holds_drop_holder:
  "ks_inv ks \<Longrightarrow> holds p (fst (abs_lock ks)) \<longleftrightarrow> drop_holder p ks \<noteq> None"
  by (cases ks rule: abs_lock_cases) (auto simp: drop_holder_def idle_def)

lemma leave_drop_holder:
  assumes "ks_inv ks" and "drop_holder p ks = Some ks'"
  shows "leave p (abs_lock ks) =
     (if idle ks' then (map abs_request (fst (admit ks')), abs_lock (snd (admit ks')))
      else ([], abs_lock ks'))"
proof -
  have pend: "pending_request ks' = pending_request ks"
    using assms(2) by (rule drop_holder_facts)
  then have "list_all lock_request (pending_request ks')"
    using assms(1) by (simp add: ks_inv_def)
  then have serve: "idle ks' \<Longrightarrow> serve (map abs_request (pending_request ks)) =
      (map abs_request (fst (admit ks')), abs_lock (snd (admit ks')))"
    using admit_serve [of ks'] pend by simp
  from assms(1) show ?thesis
  proof (cases ks rule: abs_lock_cases)
    case idle
    with assms(2) show ?thesis by (simp add: drop_holder_def idle_def split: if_splits)
  next
    case shared
    then have ks': "ks' = ks\<lparr>readers := readers ks - {p}\<rparr>"
      using assms(2) by (auto simp: drop_holder_def split: if_splits)
    with shared have "idle ks' \<longleftrightarrow> readers ks - {p} = {}" by (simp add: idle_def)
    with serve shared ks' show ?thesis
      by (cases "readers ks - {p} = {}") (simp_all add: abs_lock_def)
  next
    case (exclusive w)
    then have "idle ks'"
      using assms(2) by (auto simp: drop_holder_def idle_def split: if_splits)
    with serve exclusive show ?thesis by simp
  qed
qed

lemma list_all_takeWhile: "list_all P xs \<Longrightarrow> list_all P (takeWhile Q xs)"
  by (induction xs) auto

lemma list_all_admit: "list_all lock_request (pending_request ks) \<Longrightarrow>
    list_all lock_request (fst (admit ks))"
  using list_all_takeWhile [of lock_request "pending_request ks" is_read]
  by (auto simp: admit_def Let_def split: list.splits)

text \<open>
  The call, its verdict, what it announces (each time with the creator as data holder) and the
  table it leaves, all as specified.
\<close>

definition announcements ::
  "KeyId \<Rightarrow> (ProcId \<times> mode) list \<Rightarrow> AccessManager \<Rightarrow> AccessGranted list \<Rightarrow> bool" where
  "announcements k gs am new \<longleftrightarrow> map abs_grant new = gs \<and>
     (\<forall>g\<in>set new. \<exists>ks. key_states am k = Some ks \<and> fst (snd g) = k \<and> snd (snd (snd g)) = creator ks)"

definition refines_call :: "picker \<Rightarrow> ProcId \<Rightarrow> RequestType \<Rightarrow> KeyId \<Rightarrow> AccessManager \<Rightarrow> bool" where
  "refines_call pick p t k am \<longleftrightarrow>
     (let (r, am') = am_step (pick, Call p t k) am;
          (v, gs, T') = spec_step p t k (abs_table am)
      in verdict_of t r = Some v \<and> abs_table am' = T' \<and>
         (\<exists>new. buffer (access_granted am') = buffer (access_granted am) @ new \<and>
                announcements k gs am new))"

lemma refines_create: "am_inv am \<Longrightarrow> refines_call pick p Create k am"
  by (auto simp: refines_call_def create_eq abs_table_def put_key_state_def announcements_def
      split: option.splits)

lemma refines_delete:
  assumes "am_inv am"
  shows "refines_call pick p Delete k am"
proof (cases "key_states am k")
  case None
  then show ?thesis by (simp add: refines_call_def delete_eq abs_table_def announcements_def)
next
  case (Some ks)
  with assms have "ks_inv ks" by (auto dest: am_invD)
  then have "fst (abs_lock ks) = Free \<longleftrightarrow> idle ks" by (rule abs_lock_Free)
  with Some show ?thesis
    by (auto simp: refines_call_def delete_eq abs_table_def announcements_def split: prod.splits)
qed

lemma refines_read:
  assumes "am_inv am"
  shows "refines_call pick p Read k am"
proof (cases "key_states am k")
  case None
  then show ?thesis by (simp add: refines_call_def read_access_eq abs_table_def announcements_def)
next
  case (Some ks)
  with assms have "ks_inv ks" by (auto dest: am_invD)
  from acquire_shared [OF this, of p] Some show ?thesis
    by (auto simp: refines_call_def read_access_eq announcements_def put_key_state_def
        abs_table_def)
qed

lemma refines_write:
  assumes "am_inv am"
  shows "refines_call pick p Write k am"
proof (cases "key_states am k")
  case None
  then show ?thesis by (simp add: refines_call_def write_access_eq abs_table_def announcements_def)
next
  case (Some ks)
  with assms have "ks_inv ks" by (auto dest: am_invD)
  from acquire_exclusive [OF this, of p] Some show ?thesis
    by (auto simp: refines_call_def write_access_eq announcements_def put_key_state_def
        abs_table_def)
qed

lemma refines_release:
  assumes inv: "am_inv am"
  shows "refines_call pick p Release k am"
proof (cases "key_states am k")
  case None
  with inv show ?thesis by (simp add: refines_call_def release_eq abs_table_def announcements_def)
next
  case (Some ks)
  with inv have ks: "ks_inv ks" by (auto dest: am_invD)
  have tab: "abs_table am k = Some (abs_lock ks)" using Some by (simp add: abs_table_def)
  show ?thesis
  proof (cases "drop_holder p ks")
    case None
    with ks have "\<not> holds p (fst (abs_lock ks))" by (simp add: holds_drop_holder)
    with None Some tab inv show ?thesis
      by (simp add: refines_call_def release_eq announcements_def)
  next
    case (Some ks')
    have h: "holds p (fst (abs_lock ks))" using ks Some by (simp add: holds_drop_holder)
    have "list_all lock_request (pending_request ks')"
      using ks drop_holder_facts(1) [OF Some] by (simp add: ks_inv_def)
    then have all: "list_all lock_request (fst (admit ks'))" by (rule list_all_admit)
    show ?thesis
    proof (cases "idle ks'")
      case True
      have "announcements k (map abs_request (fst (admit ks'))) am
          (map (announce k (creator ks)) (fst (admit ks')))"
        using \<open>key_states am k = Some ks\<close> abs_announce [OF all, of k "creator ks"]
        by (auto simp: announcements_def announce_def)
      with True h tab \<open>key_states am k = Some ks\<close> Some inv leave_drop_holder [OF ks Some]
      show ?thesis
        by (auto simp: refines_call_def release_eq abs_table_def)
    next
      case False
      with h tab \<open>key_states am k = Some ks\<close> Some inv leave_drop_holder [OF ks Some]
      show ?thesis
        by (auto simp: refines_call_def release_eq announcements_def put_key_state_def
            abs_table_def)
    qed
  qed
qed

lemma am_refines_call: "am_inv am \<Longrightarrow> refines_call pick p t k am"
  by (cases t) (simp_all only: refines_create refines_delete refines_read refines_write
      refines_release)

lemma am_call_refines:
  assumes "quiet_inv am"
  shows "observe c (fst (am_call c am)) = fst (spec_call c (abs_table am))"
    and "abs_table (snd (am_call c am)) = snd (spec_call c (abs_table am))"
    and "quiet_inv (snd (am_call c am))"
proof -
  obtain pick p t k where c: "c = (pick, p, t, k)" by (metis prod.exhaust)
  have inv: "am_inv am" and empty: "buffer (access_granted am) = []"
    using assms by (auto simp: quiet_inv_def)
  obtain r am' where s: "am_step (pick, Call p t k) am = (r, am')" by fastforce
  have "am_inv am'" using am_step_inv [OF inv, of "(pick, Call p t k)"] s by simp
  then show "quiet_inv (snd (am_call c am))"
    by (simp add: c s quiet_inv_def collect_granted_def try_iter_def am_inv_def)
  from am_refines_call [OF inv, of pick p t k]
  show "observe c (fst (am_call c am)) = fst (spec_call c (abs_table am))"
    and "abs_table (snd (am_call c am)) = snd (spec_call c (abs_table am))"
    by (auto simp: c s empty refines_call_def announcements_def collect_granted_def
        try_iter_def split: prod.splits)
qed

interpretation fair: simulation am_call spec_call abs_table observe quiet_inv
  by unfold_locales (simp_all add: am_call_refines)

end
