(* ===== verification/Lock_Service.thy ===== *)
theory Lock_Service
  imports Fair_Lock
begin

text \<open>
  How the access manager treats those who wait: the queue discipline of every call (a front part
  is served in order, newcomers go to the end), and progress (each round of releases by the
  current holders serves at least the front of the queue).
\<close>

section \<open>Which key a call touches\<close>

definition for_key :: "KeyId \<Rightarrow> AccessGranted \<Rightarrow> bool" where
  "for_key k g \<longleftrightarrow> fst (snd g) = k"

lemma am_step_other_key:
  assumes "am_inv am" and "k \<noteq> k'"
  shows "key_states (snd (am_step (pick, Call p t k') am)) k = key_states am k"
  using assms
  by (cases t) (auto simp: create_eq delete_eq read_access_eq write_access_eq release_eq
      put_key_state_def split: option.splits if_splits)

lemma am_step_announces:
  assumes "am_inv am"
  obtains new where
    "buffer (access_granted (snd (am_step (pick, Call p t k) am))) = buffer (access_granted am) @ new"
    "list_all (for_key k) new"
proof -
  obtain r am' where s: "am_step (pick, Call p t k) am = (r, am')" by fastforce
  obtain v gs T' where a: "spec_step p t k (abs_table am) = (v, gs, T')" by (metis prod.exhaust)
  from am_refines_call [OF assms, of pick p t k] s a
  obtain new where "buffer (access_granted am') = buffer (access_granted am) @ new"
    and "announcements k gs am new"
    by (auto simp: refines_call_def)
  with s that [of new] show thesis by (auto simp: announcements_def for_key_def list_all_iff)
qed

lemma for_key_filter:
  "list_all (for_key k) gs \<Longrightarrow> filter (for_key k) gs = gs"
  "list_all (for_key k') gs \<Longrightarrow> k \<noteq> k' \<Longrightarrow> filter (for_key k) gs = []"
  by (induction gs) (auto simp: for_key_def)

lemma for_key_announce: "filter (for_key k) (map (announce k h) rs) = map (announce k h) rs"
  by (rule for_key_filter) (simp add: list_all_iff announce_def for_key_def)

lemma admit_split: "fst (admit ks) @ pending_request (snd (admit ks)) = pending_request ks"
  by (auto simp: admit_def Let_def split: list.splits)

text \<open>
  The queue discipline of one call: a front part of the queue is served, in order, the rest
  stays in order, and new requests go to the end.
\<close>

definition fifo_step :: "KeyId \<Rightarrow> AccessManager \<Rightarrow> AccessManager \<Rightarrow> bool" where
  "fifo_step k am am' \<longleftrightarrow>
     (\<forall>ks. key_states am k = Some ks \<longrightarrow>
        (\<exists>served waiting. pending_request ks = served @ waiting \<and>
           filter (for_key k) (buffer (access_granted am')) =
             filter (for_key k) (buffer (access_granted am)) @
               map (announce k (creator ks)) served \<and>
           (case key_states am' k of
              None \<Rightarrow> pending_request ks = []
            | Some ks' \<Rightarrow> creator ks' = creator ks \<and>
                (\<exists>new. length new \<le> 1 \<and> pending_request ks' = waiting @ new))))"

lemma fifo_stepI:
  assumes "key_states am k = Some ks" "key_states am' k = Some ks'" "creator ks' = creator ks"
    "pending_request ks = served @ waiting" "pending_request ks' = waiting @ new" "length new \<le> 1"
    "buffer (access_granted am') =
       buffer (access_granted am) @ map (announce k (creator ks)) served"
  shows "fifo_step k am am'"
  unfolding fifo_step_def
  by (rule allI, rule impI, rule exI [of _ served], rule exI [of _ waiting])
     (use assms in \<open>auto simp: for_key_announce\<close>)

lemma fifo_refl: "fifo_step k am am"
  by (auto simp: fifo_step_def split: option.splits intro!: exI [of _ "[]"])

lemma creator_admit: "creator (snd (admit ks)) = creator ks"
  by (auto simp: admit_def Let_def split: list.splits)

lemma fifo_release:
  assumes inv: "am_inv am"
  shows "fifo_step k am (snd (release pick p k am))"
proof (cases "key_states am k")
  case None
  then show ?thesis by (simp add: fifo_step_def)
next
  case (Some ks)
  note ks = this
  show ?thesis
  proof (cases "drop_holder p ks")
    case None
    with Some inv show ?thesis by (simp add: release_eq fifo_refl)
  next
    case (Some ks')
    note facts = drop_holder_facts [OF Some]
    show ?thesis
    proof (cases "idle ks'")
      case True
      with ks Some inv show ?thesis
        by (intro fifo_stepI [where ks = ks and ks' = "snd (admit ks')" and new = "[]"
              and served = "fst (admit ks')" and waiting = "pending_request (snd (admit ks'))"])
           (simp_all add: release_eq facts creator_admit admit_split)
    next
      case False
      with ks Some inv show ?thesis
        by (intro fifo_stepI [where ks = ks and ks' = ks' and new = "[]" and served = "[]"
              and waiting = "pending_request ks"])
           (simp_all add: release_eq facts put_key_state_def)
    qed
  qed
qed

lemma fifo_put:
  assumes "key_states am k = Some ks" "creator ks' = creator ks"
    "pending_request ks' = pending_request ks @ new" "length new \<le> 1"
  shows "fifo_step k am (put_key_state k ks' am)"
  by (rule fifo_stepI [where served = "[]" and waiting = "pending_request ks" and new = new])
     (use assms in \<open>simp_all add: put_key_state_def\<close>)

lemma fifo_same_key:
  assumes inv: "am_inv am"
  shows "fifo_step k am (snd (am_step (pick, Call p t k) am))"
proof (cases "key_states am k")
  case None
  then show ?thesis by (simp add: fifo_step_def)
next
  case (Some ks)
  then have ksi: "ks_inv ks" using inv by (rule am_invD(2) [rotated])
  show ?thesis
  proof (cases t)
    case Create
    with Some show ?thesis by (simp add: create_eq fifo_refl)
  next
    case Delete
    have "pending_request ks = [] \<Longrightarrow>
        fifo_step k am (am\<lparr>key_states := (key_states am)(k := None)\<rparr>)"
      using Some by (simp add: fifo_step_def)
    with Delete Some ksi show ?thesis
      by (simp add: delete_eq fifo_refl ks_inv_def)
  next
    case Read
    with Some show ?thesis
      by (auto simp: read_access_eq intro!: fifo_put)
         (auto simp: push_back_def register_reader_def)
  next
    case Write
    with Some show ?thesis
      by (auto simp: write_access_eq intro!: fifo_put)
         (auto simp: push_back_def register_writer_def)
  next
    case Release
    with inv show ?thesis by (simp add: fifo_release)
  qed
qed

lemma fifo_any_key:
  assumes inv: "am_inv am"
  shows "fifo_step k am (snd (am_step (pick, Call p t k') am))"
proof (cases "k = k'")
  case True
  with fifo_same_key [OF inv] show ?thesis by simp
next
  case False
  from am_step_announces [OF inv] obtain new where
    "buffer (access_granted (snd (am_step (pick, Call p t k') am))) = buffer (access_granted am) @ new"
    "list_all (for_key k') new" .
  with False am_step_other_key [OF inv False, of pick p t] show ?thesis
    by (auto simp: fifo_step_def for_key_filter intro!: exI [of _ "[]"] split: option.splits)
qed


text \<open>Who is admitted is registered with the access it asked for.\<close>

lemma admit_registers:
  assumes "list_all lock_request (pending_request ks)" and "(q, m) \<in> set (fst (admit ks))"
  shows "m = Read \<and> q \<in> readers (snd (admit ks)) \<or> m = Write \<and> writer (snd (admit ks)) = Some q"
proof (cases "pending_request ks")
  case Nil
  with assms(2) show ?thesis by (simp add: admit_def)
next
  case (Cons r rest)
  obtain p t where r: "r = (p, t)" by (cases r)
  show ?thesis
  proof (cases "t = Write")
    case True
    with assms(2) Cons r show ?thesis by (simp add: admit_def)
  next
    case False
    then have gs: "fst (admit ks) = takeWhile is_read (pending_request ks)"
      and rd: "fst ` set (fst (admit ks)) \<subseteq> readers (snd (admit ks))"
      using Cons r by (simp_all add: admit_def Let_def)
    from assms(2) gs have "m = Read" by (auto simp: is_read_def dest: set_takeWhileD)
    moreover from assms(2) have "q \<in> fst ` set (fst (admit ks))" by force
    ultimately show ?thesis using rd by blast
  qed
qed

section \<open>Liveness\<close>

text \<open>Everybody who holds the key, in ascending order.\<close>

definition holders :: "KeyState \<Rightarrow> ProcId list" where
  "holders ks = (case writer ks of Some w \<Rightarrow> [w] | None \<Rightarrow> sorted_list_of_set (readers ks))"

definition release_each :: "picker \<Rightarrow> KeyId \<Rightarrow> ProcId list \<Rightarrow> AccessManager \<Rightarrow> AccessManager" where
  "release_each pick k ps am = fold (\<lambda>p am. snd (release pick p k am)) ps am"

text \<open>A round: all who hold the key now release it, one after the other.\<close>

definition release_round :: "picker \<Rightarrow> KeyId \<Rightarrow> AccessManager \<Rightarrow> AccessManager" where
  "release_round pick k am =
     (case key_states am k of
        None \<Rightarrow> am
      | Some ks \<Rightarrow> release_each pick k (holders ks) am)"

definition freed :: "KeyState \<Rightarrow> KeyState" where
  "freed ks = ks\<lparr>readers := {}, writer := None\<rparr>"

lemma freed_facts [simp]:
  "pending_request (freed ks) = pending_request ks"
  "creator (freed ks) = creator ks"
  "idle (freed ks)"
  by (simp_all add: freed_def idle_def)

text \<open>The last of the holders to leave hands the lock to the front of the queue.\<close>

definition handed_over :: "KeyId \<Rightarrow> KeyState \<Rightarrow> AccessManager \<Rightarrow> AccessManager" where
  "handed_over k ks am =
     am\<lparr>access_granted := (access_granted am)\<lparr>buffer := buffer (access_granted am) @
            map (announce k (creator ks)) (fst (admit (freed ks)))\<rparr>,
        key_states := (key_states am)(k \<mapsto> snd (admit (freed ks)))\<rparr>"

lemma release_last:
  assumes "am_inv am" and "key_states am k = Some ks"
    and "drop_holder p ks = Some ks'" and "idle ks'"
  shows "snd (release pick p k am) = handed_over k ks am"
proof -
  have "ks' = freed ks"
    using assms(3,4) drop_holder_facts [OF assms(3)]
    by (auto simp: freed_def drop_holder_def idle_def split: if_splits)
  with assms show ?thesis by (simp add: release_eq handed_over_def)
qed

lemma release_readers:
  assumes "am_inv am" and "key_states am k = Some ks" and "writer ks = None"
    and "distinct ps" and "set ps = readers ks" and "ps \<noteq> []"
  shows "release_each pick k ps am = handed_over k ks am"
  using assms
proof (induction ps arbitrary: am ks)
  case Nil
  then show ?case by simp
next
  case (Cons p ps)
  let ?ks = "ks\<lparr>readers := readers ks - {p}\<rparr>"
  have drop: "drop_holder p ks = Some ?ks"
    using Cons.prems by (auto simp: drop_holder_def)
  show ?case
  proof (cases "ps = []")
    case True
    with Cons.prems have "idle ?ks" by (auto simp: idle_def)
    with Cons.prems drop True show ?thesis
      by (simp add: release_each_def release_last)
  next
    case False
    with Cons.prems have rest: "readers ?ks = set ps" by auto
    with False have "\<not> idle ?ks" by (simp add: idle_def)
    with drop Cons.prems have rel: "snd (release pick p k am) = put_key_state k ?ks am"
      by (simp add: release_eq)
    have "release_each pick k ps (put_key_state k ?ks am) = handed_over k ?ks (put_key_state k ?ks am)"
    proof (rule Cons.IH)
      show "am_inv (put_key_state k ?ks am)"
        using release_inv [OF Cons.prems(1), of pick p k] rel by simp
      show "key_states (put_key_state k ?ks am) k = Some ?ks" by (simp add: put_key_state_def)
      show "distinct ps" using Cons.prems(4) by simp
      show "set ps = readers ?ks" using rest by simp
    qed (use Cons.prems False in simp_all)
    also have "\<dots> = handed_over k ks am"
      by (simp add: handed_over_def put_key_state_def freed_def)
    finally show ?thesis using rel by (simp add: release_each_def)
  qed
qed

lemma release_round_eq:
  assumes "am_inv am" and "key_states am k = Some ks" and "\<not> idle ks"
  shows "release_round pick k am = handed_over k ks am"
proof (cases "writer ks")
  case None
  with assms have "readers ks \<noteq> {}" by (simp add: idle_def)
  then show ?thesis
    using assms(2) None release_readers [OF assms(1,2) None, of "sorted_list_of_set (readers ks)" pick]
    by (simp add: release_round_def holders_def)
next
  case (Some w)
  have "readers ks = {}" using assms Some am_invD(2) [OF assms(1,2)] by (simp add: ks_inv_def)
  then have "drop_holder w ks = Some (ks\<lparr>writer := None\<rparr>)" "idle (ks\<lparr>writer := None\<rparr>)"
    using Some by (auto simp: drop_holder_def idle_def)
  with assms Some show ?thesis
    by (simp add: release_round_def holders_def release_each_def release_last)
qed

definition release_rounds :: "nat \<Rightarrow> picker \<Rightarrow> KeyId \<Rightarrow> AccessManager \<Rightarrow> AccessManager" where
  "release_rounds n pick k am = (release_round pick k ^^ n) am"

lemma release_buffer:
  assumes "am_inv am"
  shows "set (buffer (access_granted am)) \<subseteq> set (buffer (access_granted (snd (release pick p k am))))"
proof -
  from am_step_announces [OF assms, of pick p Release k] obtain new where
    "buffer (access_granted (snd (release pick p k am))) = buffer (access_granted am) @ new"
    by auto
  then show ?thesis by simp
qed

lemma release_each_grows:
  "am_inv am \<Longrightarrow> am_inv (release_each pick k ps am) \<and>
     set (buffer (access_granted am)) \<subseteq> set (buffer (access_granted (release_each pick k ps am)))"
proof (induction ps arbitrary: am)
  case Nil
  then show ?case by (simp add: release_each_def)
next
  case (Cons p ps)
  have "am_inv (snd (release pick p k am))" using Cons.prems by (rule release_inv)
  from Cons.IH [OF this] release_buffer [OF Cons.prems, of pick p k] show ?case
    by (auto simp: release_each_def)
qed

lemma release_round_grows:
  "am_inv am \<Longrightarrow> am_inv (release_round pick k am) \<and>
     set (buffer (access_granted am)) \<subseteq> set (buffer (access_granted (release_round pick k am)))"
  by (simp add: release_round_def release_each_grows split: option.split)

lemma rounds_grow:
  "am_inv am \<Longrightarrow> am_inv (release_rounds n pick k am) \<and>
     set (buffer (access_granted am)) \<subseteq> set (buffer (access_granted (release_rounds n pick k am)))"
proof (induction n)
  case 0
  then show ?case by (simp add: release_rounds_def)
next
  case (Suc n)
  then have inv: "am_inv (release_rounds n pick k am)" by simp
  from release_round_grows [OF this, of pick k] Suc show ?case
    by (auto simp: release_rounds_def)
qed

lemma admit_progress:
  "pending_request ks \<noteq> [] \<Longrightarrow> list_all lock_request (pending_request ks) \<Longrightarrow> fst (admit ks) \<noteq> []"
  by (auto simp: admit_def Let_def lock_request_def is_read_def split: list.splits)

lemma rounds_serve:
  assumes "am_inv am" and "key_states am k = Some ks" and "i < n"
    and "i < length (pending_request ks)"
  shows "announce k (creator ks) (pending_request ks ! i) \<in>
     set (buffer (access_granted (release_rounds n pick k am)))"
  using assms
proof (induction n arbitrary: am ks i)
  case 0
  then show ?case by simp
next
  case (Suc n)
  have ks: "ks_inv ks" using Suc.prems by (auto dest: am_invD)
  with Suc.prems(4) have busy: "\<not> idle ks" by (auto simp: ks_inv_def)
  define am1 where "am1 = release_round pick k am"
  define ks1 where "ks1 = snd (admit (freed ks))"
  define gs where "gs = fst (admit (freed ks))"
  have am1: "am1 = handed_over k ks am"
    unfolding am1_def using Suc.prems(1,2) busy by (rule release_round_eq)
  have inv1: "am_inv am1" unfolding am1_def using release_round_grows [OF Suc.prems(1)] by blast
  have st1: "key_states am1 k = Some ks1" by (simp add: am1 handed_over_def ks1_def)
  have cr1: "creator ks1 = creator ks" by (simp add: ks1_def creator_admit)
  have split: "gs @ pending_request ks1 = pending_request ks"
    unfolding gs_def ks1_def using admit_split [of "freed ks"] by simp
  have "gs \<noteq> []" unfolding gs_def
    by (rule admit_progress) (use ks Suc.prems(4) in \<open>auto simp: ks_inv_def\<close>)
  have rounds: "release_rounds (Suc n) pick k am = release_rounds n pick k am1"
    by (simp add: release_rounds_def am1_def funpow_swap1)
  show ?case
  proof (cases "i < length gs")
    case True
    then have "pending_request ks ! i \<in> set gs"
      using split nth_append [of gs "pending_request ks1" i] by simp
    then have "announce k (creator ks) (pending_request ks ! i) \<in> set (buffer (access_granted am1))"
      by (simp add: am1 handed_over_def gs_def)
    moreover have "set (buffer (access_granted am1)) \<subseteq>
        set (buffer (access_granted (release_rounds n pick k am1)))"
      using rounds_grow [OF inv1] by blast
    ultimately show ?thesis by (auto simp: rounds)
  next
    case False
    let ?j = "i - length gs"
    have "pending_request ks ! i = pending_request ks1 ! ?j"
      using split False nth_append [of gs "pending_request ks1" i] by simp
    moreover have "?j < length (pending_request ks1)"
      using split Suc.prems(4) False
      by (metis add_diff_inverse_nat length_append nat_add_left_cancel_less)
    moreover have "?j < n" using Suc.prems(3) \<open>gs \<noteq> []\<close> False by (cases gs) auto
    ultimately show ?thesis
      using Suc.IH [OF inv1 st1, of ?j] by (simp add: rounds cr1)
  qed
qed

end
