(* ===== verification/Access_Manager_Claims.thy ===== *)
theory Access_Manager_Claims
  imports Lock_Service
begin

text \<open>
  The properties of the access manager, each for every reachable state of it, with a witness on
  the run \<open>demo_calls\<close>: process 1 creates key 0, process 2 gets the write access, and two readers
  and a writer queue up behind it.
\<close>

definition demo_calls :: "(picker \<times> am_op) list" where
  "demo_calls =
     [(Min, Call 1 Create 0), (Min, Call 2 Write 0), (Min, Call 3 Read 0),
      (Min, Call 4 Read 0), (Min, Call 5 Write 0)]"

definition demo_manager :: AccessManager where
  "demo_manager = snd (run_ops am_step demo_calls new_access_manager)"

definition demo_key :: KeyState where
  "demo_key = \<lparr>pending_request = [(3, Read), (4, Read), (5, Write)], readers = {},
     writer = Some 2, creator = 1\<rparr>"

lemmas demo_eqs = create_eq delete_eq read_access_eq write_access_eq put_key_state_def ks_defs
  idle_def new_access_manager_def channel_new_def

lemma demo_reachable: "am_reachable demo_manager"
  unfolding demo_manager_def by (rule am_reachable_run)

lemma demo_manager_eq:
  "demo_manager = \<lparr>access_granted = channel_new, key_states = [0 \<mapsto> demo_key]\<rparr>"
  by (simp add: demo_manager_def demo_calls_def demo_key_def demo_eqs)

lemma demo_lookup: "key_states demo_manager 0 = Some demo_key"
  by (simp add: demo_manager_eq)

section \<open>Safety\<close>

text \<open>
  C1: Mutual exclusion. In every state the access manager can reach, a key that has a writer has
  no readers.
\<close>

theorem mutual_exclusion:
  assumes "am_reachable am" and "key_states am k = Some ks" and "writer ks = Some w"
  shows "readers ks = {}"
  using am_reachable_ks_inv [OF assms(1,2)] assms(3) by (simp add: ks_inv_def)

theorem mutual_exclusion_witness: "writer demo_key = Some 2 \<and> readers demo_key = {}"
  using mutual_exclusion [OF demo_reachable demo_lookup] by (simp add: demo_key_def)

text \<open>
  C17: No call sequence makes the access manager panic (neither the \<open>unwrap\<close> nor the
  \<open>panic!\<close> of \<open>handle_requesting\<close> is ever reached) and no call fails with a send error: every
  outcome is a value or one of the documented refusals.
\<close>

theorem calls_never_panic:
  assumes "r \<in> set (fst (run_ops am_step xs new_access_manager))"
  shows "\<not> is_panic r \<and> (\<forall>m. r \<noteq> Err (SendError m))"
  using lockman.run_good [OF assms] by (cases r) auto

theorem calls_never_panic_witness:
  "\<not> is_panic (fst (create 1 0 new_access_manager) :: (AccessManagerError, unit) outcome) \<and>
   \<not> is_panic (Ok None :: (AccessManagerError, ProcId option) outcome)"
proof -
  have "Ok None \<in> set (fst (run_ops am_step [(Min, Call 1 Create 0)] new_access_manager))"
    by (simp add: demo_eqs)
  from calls_never_panic [OF this] show ?thesis by (simp add: demo_eqs)
qed

text \<open>
  Requests are never barged in front of a queue. While any request is pending on a key, every
  further read or write of it is refused with \<open>RequestAccess\<close> and appended to the queue, and
  nothing else of the manager changes.
\<close>

lemma no_barging:
  assumes "am_reachable am" and "key_states am k = Some ks" and "pending_request ks \<noteq> []"
    and "t = Read \<or> t = Write"
  shows "am_step (pick, Call p t k) am =
     (Err (RequestAccess p k),
      am\<lparr>key_states := (key_states am)(k \<mapsto>
           ks\<lparr>pending_request := pending_request ks @ [(p, t)]\<rparr>)\<rparr>)"
proof -
  have ks: "ks_inv ks" using assms(1,2) by (rule am_reachable_ks_inv)
  then have "\<not> idle ks" using assms(3) by (simp add: ks_inv_def)
  moreover have "writer ks \<noteq> None \<or> (\<exists>w rest. pending_request ks = (w, Write) # rest)"
  proof (cases "writer ks")
    case None
    with \<open>\<not> idle ks\<close> ks assms(3) have "snd (hd (pending_request ks)) = Write"
      by (simp add: ks_inv_def idle_def)
    with assms(3) show ?thesis
      by (metis list.exhaust_sel prod.collapse)
  qed simp
  ultimately show ?thesis
    using assms(2,4)
    by (auto simp: read_access_eq write_access_eq put_key_state_def push_back_def)
qed

text \<open>
  C16: First in, first out. Whatever the call, the queue of each key is served from the front in
  order: the announcements it adds for the key are exactly those of a front part of the queue,
  the remaining queue keeps its order, and at most one request is added, at its end.
\<close>

theorem fifo_service:
  assumes "am_reachable am" and "key_states am k = Some ks"
    and "am_step (pick, Call p t k') am = (r, am')"
  shows "\<exists>served waiting.
     pending_request ks = served @ waiting \<and>
     filter (\<lambda>g. fst (snd g) = k) (buffer (access_granted am')) =
       filter (\<lambda>g. fst (snd g) = k) (buffer (access_granted am)) @
         map (\<lambda>(q, m). (q, k, m, creator ks)) served \<and>
     (case key_states am' k of
        None \<Rightarrow> pending_request ks = []
      | Some ks' \<Rightarrow> creator ks' = creator ks \<and>
          (\<exists>new. length new \<le> 1 \<and> pending_request ks' = waiting @ new))"
proof -
  have fifo: "fifo_step k am am'"
    using fifo_any_key [OF am_reachable_inv [OF assms(1)], of k pick p t k'] assms(3) by simp
  have key: "for_key k = (\<lambda>g. fst (snd g) = k)"
    by (rule ext) (simp add: for_key_def)
  have ann: "announce k h = (\<lambda>(q, m). (q, k, m, h))" for h
    by (rule ext) (simp add: announce_def split_beta)
  show ?thesis
    by (rule fifo [unfolded fifo_step_def key ann, rule_format, OF assms(2)])
qed

theorem fifo_service_witness:
  "\<exists>served waiting. pending_request demo_key = served @ waiting \<and>
     map (\<lambda>(q, m). (q, 0::KeyId, m, creator demo_key)) served =
       [(3, 0, Read, 1), (4, 0, Read, 1)]"
proof -
  let ?s = "am_step (Min, Call 2 Release 0) demo_manager"
  have "buffer (access_granted (snd ?s)) = [(3, 0, Read, 1), (4, 0, Read, 1)]"
    by (simp add: demo_manager_eq demo_key_def release_def and_then_def get_key_state_def
        put_key_state_def handle_requesting_def grant_reads.simps channel_new_def
        channel_send_def ks_defs holder_def Let_def)
  with fifo_service [OF demo_reachable demo_lookup prod.collapse [symmetric, of ?s]]
  show ?thesis
    by (auto simp: demo_manager_eq channel_new_def)
qed

section \<open>Progress\<close>

text \<open>
  C6: Nobody waits for ever if the holders release. If in every round all processes that hold
  the key release it, the request at position \<open>i\<close> of the queue has been announced, with its own
  process and type, after \<open>i + 1\<close> rounds at the latest.
\<close>

theorem waiting_request_served:
  assumes "am_reachable am" and "key_states am k = Some ks" and "i < length (pending_request ks)"
    and "pending_request ks ! i = (p, t)"
  shows "(p, k, t, creator ks) \<in>
     set (buffer (access_granted (release_rounds (Suc i) pick k am)))"
  using rounds_serve [OF am_reachable_inv [OF assms(1)] assms(2) lessI assms(3), of pick] assms(4)
  by (simp add: announce_def)

theorem waiting_request_served_witness:
  "(5, 0, Write, 1) \<in> set (buffer (access_granted (release_rounds 3 Min 0 demo_manager)))"
  using waiting_request_served [OF demo_reachable demo_lookup, of 2 5 Write Min]
  by (simp add: demo_key_def)

section \<open>Refinement\<close>

text \<open>
  C2: The access manager implements the fair read-write lock. For every sequence of calls, each
  followed by the collection of what it announced, the verdicts, the announcements and the final
  locks are those of the abstract specification \<open>spec_call\<close>, from an empty table.
\<close>

theorem runs_refine_fair_lock:
  "map2 observe cs (fst (run_ops am_call cs new_access_manager)) =
     fst (run_ops spec_call cs Map.empty) \<and>
   abs_table (snd (run_ops am_call cs new_access_manager)) =
     snd (run_ops spec_call cs Map.empty)"
proof -
  have "buffer (access_granted new_access_manager) = []"
    by (simp add: new_access_manager_def channel_new_def)
  with new_access_manager_inv have "quiet_inv new_access_manager"
    by (simp add: quiet_inv_def)
  moreover have "abs_table new_access_manager = Map.empty"
    by (simp add: abs_table_def new_access_manager_def)
  ultimately show ?thesis using fair.run_sim [of new_access_manager cs] by simp
qed

section \<open>Release\<close>

text \<open>
  C23: Release, on every branch. An unknown key and a process that does not hold the key are
  refused without any change; otherwise the process is dropped as holder, and if it was the last
  one, \<open>admit\<close> serves the queue: one write, or all reads at the front, each announced in order
  with the creator as data holder.
\<close>

theorem release_branches:
  assumes "am_reachable am"
  shows "release pick p k am =
     (case key_states am k of
        None \<Rightarrow> (Err (KeyNotFound k), am)
      | Some ks \<Rightarrow>
          (case drop_holder p ks of
             None \<Rightarrow> (Err (ReleaseAccess p k), am)
           | Some ks' \<Rightarrow>
               if readers ks' = {} \<and> writer ks' = None then
                 (Ok (),
                  am\<lparr>access_granted := (access_granted am)\<lparr>buffer := buffer (access_granted am) @
                         map (\<lambda>(q, m). (q, k, m, creator ks)) (fst (admit ks'))\<rparr>,
                     key_states := (key_states am)(k \<mapsto> snd (admit ks'))\<rparr>)
               else (Ok (), am\<lparr>key_states := (key_states am)(k \<mapsto> ks')\<rparr>)))"
proof -
  have ann: "announce k h = (\<lambda>(q, m). (q, k, m, h))" for h
    by (rule ext) (simp add: announce_def split_beta)
  show ?thesis
    using release_eq [OF am_reachable_inv [OF assms], of pick p k]
    by (simp add: ann put_key_state_def idle_def cong: option.case_cong if_cong)
qed

theorem release_branches_witness:
  "fst (release Min 2 0 demo_manager) = Ok () \<and>
   fst (release Min 3 0 demo_manager) = Err (ReleaseAccess 3 0) \<and>
   fst (release Min 2 7 demo_manager) = Err (KeyNotFound 7)"
  unfolding release_branches [OF demo_reachable]
  by (simp add: demo_manager_eq demo_key_def drop_holder_def)

text \<open>
  C22: Whoever is announced holds the lock: after any call, every new announcement is for the
  called key, names a process that is now registered with the announced access, and names the
  creator of the key as the holder of the data (never the last writer, unless it is the creator).
\<close>

theorem announced_is_registered:
  assumes "am_reachable am" and "am_step (pick, Call p t k) am = (r, am')"
    and "buffer (access_granted am') = buffer (access_granted am) @ new"
    and "(q, k', m, h) \<in> set new"
  shows "\<exists>ks'. key_states am' k = Some ks' \<and> k' = k \<and> h = creator ks' \<and>
     (m = Read \<and> q \<in> readers ks' \<or> m = Write \<and> writer ks' = Some q)"
proof -
  note inv = am_reachable_inv [OF assms(1)]
  have "t = Release"
    using assms(2-4) by (cases t)
      (auto simp: create_eq delete_eq read_access_eq write_access_eq put_key_state_def
        split: option.splits if_splits)
  with assms(2) have am': "am' = snd (release pick p k am)" by (cases "release pick p k am") simp
  then obtain ks ks' where ks: "key_states am k = Some ks" and drop: "drop_holder p ks = Some ks'"
    and idle: "idle ks'"
    using assms(3,4) inv
    by (cases "key_states am k")
      (auto simp: release_eq put_key_state_def split: option.splits if_splits)
  with am' assms(3) inv have new: "new = map (announce k (creator ks)) (fst (admit ks'))"
    by (simp add: release_eq)
  have post: "key_states am' k = Some (snd (admit ks'))"
    using am' ks drop idle inv by (simp add: release_eq)
  have all: "list_all lock_request (pending_request ks')"
    using am_invD(2) [OF inv ks] drop_holder_facts(1) [OF drop] by (simp add: ks_inv_def)
  from new assms(4) have "(q, m) \<in> set (fst (admit ks'))" "k' = k" "h = creator ks"
    by (auto simp: announce_def)
  with admit_registers [OF all, of q m] post show ?thesis
    by (simp add: creator_admit drop_holder_facts(2) [OF drop])
qed

theorem announced_is_registered_witness:
  "\<exists>ks'. key_states (snd (release Min 2 0 demo_manager)) 0 = Some ks' \<and> 3 \<in> readers ks' \<and>
     creator ks' = 1"
proof -
  let ?s = "am_step (Min, Call 2 Release 0) demo_manager"
  have "buffer (access_granted (snd ?s)) = buffer (access_granted demo_manager) @
      [(3, 0, Read, 1), (4, 0, Read, 1)]"
    unfolding am_step.simps release_branches [OF demo_reachable]
    by (simp add: demo_manager_eq demo_key_def drop_holder_def admit_def is_read_def
        channel_new_def)
  from announced_is_registered [OF demo_reachable prod.collapse [symmetric] this, of 3 0 Read 1]
  show ?thesis by auto
qed

section \<open>Other operations\<close>

text \<open>
  A key is deleted only when nobody holds it, and then nobody waits for it either: deleting
  never drops a pending request.
\<close>

lemma delete_loses_nobody:
  assumes "am_reachable am" and "delete k am = (Ok (), am')"
  shows "\<exists>ks. key_states am k = Some ks \<and> readers ks = {} \<and> writer ks = None \<and>
     pending_request ks = [] \<and> am' = am\<lparr>key_states := (key_states am)(k := None)\<rparr>"
  using assms(2) am_reachable_ks_inv [OF assms(1), of k]
  by (auto simp: delete_eq ks_inv_def idle_def split: option.splits if_splits)

text \<open>
  C39: The first reader of an idle key is told that it holds the data itself: \<open>read\<close> registers the
  reader before it looks for a holder, so whatever the iteration order, the answer is the
  requesting process and never the creator or the last writer.
\<close>

theorem first_reader_is_its_own_holder:
  assumes "am_reachable am" and "key_states am k = Some ks"
    and "readers ks = {}" and "writer ks = None" and "hash_iter pick"
  shows "fst (read_access pick p k am) = Ok p"
proof -
  have "pending_request ks = []"
    using am_reachable_ks_inv [OF assms(1,2)] assms(3,4) by (simp add: ks_inv_def idle_def)
  moreover have "pick {p} = p" using assms(5) by (auto simp: hash_iter_def)
  ultimately show ?thesis
    using assms(2-4) by (simp add: read_access_eq holder_def register_reader_def)
qed

theorem first_reader_is_its_own_holder_witness:
  "fst (read_access Min 8 0 (snd (create 1 0 new_access_manager))) = Ok 8"
proof -
  have reach: "am_reachable (snd (create 1 0 new_access_manager))"
    using am_reachable.step [OF am_reachable.start, of "(Min, Call 1 Create 0)"] by simp
  show ?thesis
    by (rule first_reader_is_its_own_holder [OF reach, of 0 "new_key_state 1"])
      (simp_all add: demo_eqs hash_iter_Min)
qed

text \<open>
  Round trip. A read or write granted on an idle key and released by the same process leaves
  the manager exactly as it was.
\<close>

lemma acquire_release_roundtrip:
  assumes "am_reachable am" and "key_states am k = Some ks"
    and "readers ks = {}" and "writer ks = None" and "t = Read \<or> t = Write"
  shows "release pick' p k (snd (am_step (pick, Call p t k) am)) = (Ok (), am)"
proof -
  let ?am = "snd (am_step (pick, Call p t k) am)"
  have pend: "pending_request ks = []"
    using am_reachable_ks_inv [OF assms(1,2)] assms(3,4) by (simp add: ks_inv_def idle_def)
  have inv: "am_inv ?am" by (rule am_step_inv) (rule am_reachable_inv [OF assms(1)])
  have same: "ks\<lparr>readers := {}\<rparr> = ks" "ks\<lparr>writer := None\<rparr> = ks"
    using assms(3,4) by simp_all
  show ?thesis
    using assms(2-5) pend same
    by (auto simp: release_eq [OF inv] read_access_eq write_access_eq put_key_state_def idle_def
        register_reader_def register_writer_def drop_holder_def admit_def fun_upd_idem)
qed

end
