(* ===== verification/Access_Manager_Tests.thy ===== *)
theory Access_Manager_Tests
  imports Access_Manager
begin

text \<open>
  The unit tests of \<open>src/access_manager.rs\<close>, statement by statement. A test is a sequence of
  actions on a new manager; a failed assertion is a panic, and the \<open>?\<close> operator passes errors on.
  \<open>pick\<close> is the iteration order of the hash sets, which no test may depend on.
\<close>

definition assert_that :: "bool \<Rightarrow> unit am_action" where
  "assert_that b am = ((if b then Ok () else Panic (Explicit ''assertion failed'')), am)"

fun steps :: "unit am_action list \<Rightarrow> unit am_action" where
  "steps [] am = (Ok (), am)"
| "steps (m # ms) am = and_then m (\<lambda>_. steps ms) am"

text \<open>\<open>m?;\<close> for a method whose value is not used.\<close>

definition run_q :: "'a am_action \<Rightarrow> unit am_action" where
  "run_q m = and_then m (\<lambda>_. assert_that True)"

text \<open>\<open>assert!(m.is_err());\<close>\<close>

definition assert_err :: "'a am_action \<Rightarrow> unit am_action" where
  "assert_err m am =
     (case m am of
        (Ok _, am') \<Rightarrow> assert_that False am'
      | (Err _, am') \<Rightarrow> assert_that True am'
      | (Panic p, am') \<Rightarrow> (Panic p, am')
      | (Exit n, am') \<Rightarrow> (Exit n, am'))"

text \<open>An assertion on \<open>manager.get_key_state(key)?\<close>.\<close>

definition assert_key :: "KeyId \<Rightarrow> (KeyState \<Rightarrow> bool) \<Rightarrow> unit am_action" where
  "assert_key k P = and_then (get_key_state k) (\<lambda>ks. assert_that (P ks))"

text \<open>\<open>assert_grant!\<close>: the next announcement, which must be there.\<close>

definition assert_grant :: "ProcId \<Rightarrow> KeyId \<Rightarrow> RequestType \<Rightarrow> ProcId \<Rightarrow> unit am_action" where
  "assert_grant p k t h am =
     (case try_recv (access_granted am) of
        (None, ch) \<Rightarrow> (Panic UnwrapErr, am\<lparr>access_granted := ch\<rparr>)
      | (Some g, ch) \<Rightarrow> assert_that (g = (p, k, t, h)) (am\<lparr>access_granted := ch\<rparr>))"

text \<open>\<open>assert_eq!(manager.access_granted_rx.try_iter().count(), 0);\<close>\<close>

definition assert_no_grant :: "unit am_action" where
  "assert_no_grant am = (let (gs, am') = collect_granted am in assert_that (gs = []) am')"

definition test_create :: "unit am_action" where
  "test_create = steps
     [assert_err (get_key_state 0),
      run_q (create 2 0),
      assert_key 0 (\<lambda>ks. creator ks = 2),
      assert_err (create 0 0)]"

definition test_delete :: "unit am_action" where
  "test_delete = steps
     [assert_err (delete 0),
      run_q (create 0 0),
      run_q (delete 0),
      assert_err (get_key_state 0)]"

definition test_read :: "picker \<Rightarrow> unit am_action" where
  "test_read pick = steps
     [assert_err (read_access pick 1 0),
      run_q (create 0 0),
      run_q (read_access pick 1 0),
      run_q (read_access pick 2 0),
      run_q (read_access pick 3 0),
      assert_err (delete 0),
      assert_key 0 (\<lambda>ks. pending_request ks = []),
      assert_key 0 (\<lambda>ks. readers ks = {1, 2, 3})]"

definition test_write :: "unit am_action" where
  "test_write = steps
     [assert_err (write_access 1 0),
      run_q (create 0 0),
      run_q (write_access 1 0),
      assert_err (delete 0),
      assert_err (write_access 2 0),
      assert_key 0 (\<lambda>ks. pending_request ks = [(2, Write)]),
      assert_key 0 (\<lambda>ks. writer ks = Some 1)]"

definition test_read_before_write :: "picker \<Rightarrow> unit am_action" where
  "test_read_before_write pick = steps
     [run_q (create 0 0),
      run_q (read_access pick 1 0),
      run_q (read_access pick 2 0),
      assert_err (write_access 3 0),
      assert_err (read_access pick 4 0),
      assert_key 0 (\<lambda>ks. pending_request ks = [(3, Write), (4, Read)])]"

definition test_write_before_read :: "picker \<Rightarrow> unit am_action" where
  "test_write_before_read pick = steps
     [run_q (create 0 0),
      run_q (write_access 1 0),
      assert_err (read_access pick 2 0),
      assert_err (write_access 3 0),
      assert_key 0 (\<lambda>ks. pending_request ks = [(2, Read), (3, Write)])]"

definition test_release_read :: "picker \<Rightarrow> unit am_action" where
  "test_release_read pick = steps
     [run_q (create 0 0),
      assert_err (release pick 1 0),
      run_q (read_access pick 1 0),
      assert_err (release pick 2 0),
      run_q (release pick 1 0),
      assert_key 0 (\<lambda>ks. readers ks = {})]"

definition test_release_write :: "picker \<Rightarrow> unit am_action" where
  "test_release_write pick = steps
     [run_q (create 0 0),
      assert_err (release pick 1 0),
      run_q (write_access 1 0),
      assert_err (release pick 2 0),
      run_q (release pick 1 0),
      assert_key 0 (\<lambda>ks. writer ks = None)]"

definition test_handling_read_before_write :: "picker \<Rightarrow> unit am_action" where
  "test_handling_read_before_write pick = steps
     [run_q (create 0 0),
      run_q (read_access pick 1 0),
      assert_err (write_access 2 0),
      assert_err (read_access pick 3 0),
      run_q (release pick 1 0),
      assert_grant 2 0 Write 0,
      run_q (release pick 2 0),
      assert_grant 3 0 Read 0]"

definition test_handling_write_before_read :: "picker \<Rightarrow> unit am_action" where
  "test_handling_write_before_read pick = steps
     [run_q (create 0 0),
      run_q (write_access 1 0),
      assert_err (read_access pick 2 0),
      assert_err (read_access pick 3 0),
      assert_err (read_access pick 4 0),
      assert_err (write_access 5 0),
      run_q (release pick 1 0),
      assert_grant 2 0 Read 0,
      assert_grant 3 0 Read 0,
      assert_grant 4 0 Read 0,
      run_q (release pick 2 0),
      run_q (release pick 3 0),
      assert_no_grant,
      run_q (release pick 4 0),
      assert_grant 5 0 Write 0]"

text \<open>The scenario of the fairness diagram, with key \<open>x\<close> and processes \<open>a\<close> to \<open>d\<close>.\<close>

definition test_fairness :: "picker \<Rightarrow> unit am_action" where
  "test_fairness pick =
     (let x = 0; a = 1; b = 2; c = 3; d = 4 in steps
     [run_q (create a x),
      assert_key x (\<lambda>ks. creator ks = a),
      run_q (read_access pick a x),
      assert_err (write_access c x),
      assert_err (read_access pick b x),
      assert_key x (\<lambda>ks. pending_request ks = [(c, Write), (b, Read)]),
      run_q (release pick a x),
      assert_grant c x Write a,
      assert_key x (\<lambda>ks. pending_request ks = [(b, Read)]),
      assert_err (read_access pick d x),
      assert_key x (\<lambda>ks. pending_request ks = [(b, Read), (d, Read)]),
      run_q (release pick c 0),
      assert_grant b x Read a,
      assert_grant d x Read a,
      assert_key x (\<lambda>ks. pending_request ks = []),
      assert_key x (\<lambda>ks. readers ks = {b, d}),
      assert_key x (\<lambda>ks. writer ks = None)])"

definition all_tests :: "picker \<Rightarrow> unit am_action list" where
  "all_tests pick =
     [test_create, test_delete, test_read pick, test_write, test_read_before_write pick,
      test_write_before_read pick, test_release_read pick, test_release_write pick,
      test_handling_read_before_write pick, test_handling_write_before_read pick,
      test_fairness pick]"

text \<open>The result of a test: it is run on a manager of its own.\<close>

definition test_result :: "unit am_action \<Rightarrow> (AccessManagerError, unit) outcome" where
  "test_result t = fst (t new_access_manager)"

lemmas step_defs = assert_that_def run_q_def assert_err_def assert_key_def assert_grant_def
  assert_no_grant_def collect_granted_def and_then_def get_key_state_def test_result_def
  new_access_manager_def channel_new_def try_recv_def try_iter_def

lemmas call_defs = create_def delete_def read_access_def write_access_def release_def
  handle_requesting_def put_key_state_def channel_send_def ks_defs holder_def Let_def

lemma test_create_ok: "test_result test_create = Ok ()"
  by (simp add: test_create_def step_defs call_defs)

lemma test_delete_ok: "test_result test_delete = Ok ()"
  by (simp add: test_delete_def step_defs call_defs)

lemma test_read_ok: "test_result (test_read pick) = Ok ()"
  by (simp add: test_read_def step_defs call_defs insert_commute)

lemma test_write_ok: "test_result test_write = Ok ()"
  by (simp add: test_write_def step_defs call_defs)

lemma test_read_before_write_ok: "test_result (test_read_before_write pick) = Ok ()"
  by (simp add: test_read_before_write_def step_defs call_defs)

lemma test_write_before_read_ok: "test_result (test_write_before_read pick) = Ok ()"
  by (simp add: test_write_before_read_def step_defs call_defs)

lemma test_release_read_ok: "test_result (test_release_read pick) = Ok ()"
  by (simp add: test_release_read_def step_defs call_defs)

lemma test_release_write_ok: "test_result (test_release_write pick) = Ok ()"
  by (simp add: test_release_write_def step_defs call_defs)

lemma test_handling_read_before_write_ok:
  "test_result (test_handling_read_before_write pick) = Ok ()"
  by (simp add: test_handling_read_before_write_def step_defs call_defs grant_reads.simps)

lemma test_handling_write_before_read_ok:
  "test_result (test_handling_write_before_read pick) = Ok ()"
  by (simp add: test_handling_write_before_read_def step_defs call_defs grant_reads.simps
      insert_Diff_if)

lemma test_fairness_ok: "test_result (test_fairness pick) = Ok ()"
  by (simp add: test_fairness_def step_defs call_defs grant_reads.simps insert_commute)

lemmas test_oks = test_create_ok test_delete_ok test_read_ok test_write_ok
  test_read_before_write_ok test_write_before_read_ok test_release_read_ok test_release_write_ok
  test_handling_read_before_write_ok test_handling_write_before_read_ok test_fairness_ok

text \<open>Every unit test of the module passes, whatever the iteration order of the hash sets.\<close>

lemma unit_tests_pass: "map test_result (all_tests pick) = replicate 11 (Ok ())"
  by (simp add: all_tests_def test_oks numeral_eq_Suc)

end
