(* ===== verification/Net.thy ===== *)
theory Net
  imports Protocol
begin

text \<open>
  The parts of \<open>std::io\<close>, \<open>std::net\<close>, \<open>std::str\<close> and \<open>mio\<close> that the program calls. What the
  network does is not the program's choice: a stream carries, as data, the results of its next
  reads and writes, so a theorem about every stream is a theorem about every behaviour of the
  network.
\<close>

section \<open>Errors of the operating system\<close>

datatype ErrorKind = ConnectionRefused | ConnectionReset | TimedOut | WouldBlock | OtherKind

text \<open>An \<open>io::Error\<close>: its kind and the text it displays.\<close>

datatype io_error = OsError (kind: ErrorKind) (io_text: string)

section \<open>Streams\<close>

text \<open>
  \<open>incoming\<close> holds the results of the next reads: a chunk of bytes that has arrived, or an error.
  Behind the list a read gives end of file (\<open>at_end\<close> is \<open>None\<close>, the peer has closed) or the error
  \<open>at_end\<close> names, such as \<open>WouldBlock\<close>. \<open>write_plan\<close> holds the results of the next calls of
  \<open>write_all\<close>: success, or an error after some bytes; behind the list writes succeed. \<open>sent\<close> is
  all that was written.
\<close>

record TcpStream =
  incoming :: "(io_error + byte list) list"
  at_end :: "io_error option"
  write_plan :: "(nat \<times> io_error) option list"
  sent :: "byte list"

text \<open>\<open>read\<close> into a buffer of \<open>n\<close> bytes.\<close>

definition stream_read :: "nat \<Rightarrow> (TcpStream, io_error, byte list) action" where
  "stream_read n st =
     (case incoming st of
        [] \<Rightarrow> (case at_end st of None \<Rightarrow> (Ok [], st) | Some e \<Rightarrow> (Err e, st))
      | Inl e # later \<Rightarrow> (Err e, st\<lparr>incoming := later\<rparr>)
      | Inr bs # later \<Rightarrow>
          (Ok (take n bs),
           st\<lparr>incoming := (if length bs \<le> n then later else Inr (drop n bs) # later)\<rparr>))"

text \<open>\<open>peek\<close> leaves the bytes in the stream; an error it reports is gone.\<close>

definition stream_peek :: "nat \<Rightarrow> (TcpStream, io_error, byte list) action" where
  "stream_peek n st = (let (r, st') = stream_read n st in (r, if is_ok r then st else st'))"

definition stream_write_all :: "byte list \<Rightarrow> (TcpStream, io_error, unit) action" where
  "stream_write_all bs st =
     (case write_plan st of
        [] \<Rightarrow> (Ok (), st\<lparr>sent := sent st @ bs\<rparr>)
      | None # later \<Rightarrow> (Ok (), st\<lparr>write_plan := later, sent := sent st @ bs\<rparr>)
      | Some (n, e) # later \<Rightarrow>
          (Err e, st\<lparr>write_plan := later, sent := sent st @ take n bs\<rparr>))"

lemma stream_read_outcome:
  "(\<exists>bs. fst (stream_read n st) = Ok bs) \<or> (\<exists>e. fst (stream_read n st) = Err e)"
  by (auto simp: stream_read_def split: list.split sum.split option.split)

lemma stream_write_outcome:
  "fst (stream_write_all bs st) = Ok () \<or> (\<exists>e. fst (stream_write_all bs st) = Err e)"
  by (auto simp: stream_write_all_def split: list.split option.split)

lemma write_no_panic [simp]: "\<not> is_panic (fst (stream_write_all bs st))"
  using stream_write_outcome [of bs st] by auto

lemma stream_write_incoming [simp]:
  "incoming (snd (stream_write_all bs st)) = incoming st"
  "at_end (snd (stream_write_all bs st)) = at_end st"
  by (auto simp: stream_write_all_def split: list.split option.split)

section \<open>The poll of mio\<close>

text \<open>\<open>mio::Token\<close> is a number; \<open>registered\<close> lists the tokens given to \<open>register\<close>.\<close>

datatype Token = Token (token_id: usize)

record Poll =
  register_plan :: "io_error option list"
  registered :: "Token list"

definition poll_register :: "Token \<Rightarrow> (Poll, io_error, unit) action" where
  "poll_register tok p =
     (case register_plan p of
        [] \<Rightarrow> (Ok (), p\<lparr>registered := tok # registered p\<rparr>)
      | None # later \<Rightarrow> (Ok (), p\<lparr>register_plan := later, registered := tok # registered p\<rparr>)
      | Some e # later \<Rightarrow> (Err e, p\<lparr>register_plan := later\<rparr>))"

lemma poll_register_outcome:
  "fst (poll_register tok p) = Ok () \<or> (\<exists>e. fst (poll_register tok p) = Err e)"
  by (auto simp: poll_register_def split: list.split option.split)

text \<open>Tokens are ordered by their number, so that they can be bounded by a counter.\<close>

instantiation Token :: linorder
begin

definition less_eq_Token :: "Token \<Rightarrow> Token \<Rightarrow> bool" where
  "less_eq_Token a b \<longleftrightarrow> token_id a \<le> token_id b"

definition less_Token :: "Token \<Rightarrow> Token \<Rightarrow> bool" where
  "less_Token a b \<longleftrightarrow> token_id a < token_id b"

instance
  by standard (auto simp: less_eq_Token_def less_Token_def Token.expand)

end

section \<open>UTF-8\<close>

text \<open>
  \<open>std::str::from_utf8\<close> accepts exactly the well-formed sequences of the Unicode standard: no
  overlong forms, no surrogates, nothing above U+10FFFF.
\<close>

definition continuation :: "byte \<Rightarrow> bool" where
  "continuation b \<longleftrightarrow> 0x80 \<le> b \<and> b \<le> 0xBF"

fun utf8_valid :: "byte list \<Rightarrow> bool" where
  "utf8_valid [] = True"
| "utf8_valid (a # bs) =
     (if a \<le> 0x7F then utf8_valid bs
      else case bs of
        [] \<Rightarrow> False
      | b # cs \<Rightarrow>
          if 0xC2 \<le> a \<and> a \<le> 0xDF then continuation b \<and> utf8_valid cs
          else case cs of
            [] \<Rightarrow> False
          | c # ds \<Rightarrow>
              if 0xE0 \<le> a \<and> a \<le> 0xEF then
                continuation b \<and> (a = 0xE0 \<longrightarrow> 0xA0 \<le> b) \<and> (a = 0xED \<longrightarrow> b \<le> 0x9F) \<and>
                continuation c \<and> utf8_valid ds
              else case ds of
                [] \<Rightarrow> False
              | d # es \<Rightarrow>
                  0xF0 \<le> a \<and> a \<le> 0xF4 \<and> continuation b \<and> (a = 0xF0 \<longrightarrow> 0x90 \<le> b) \<and>
                  (a = 0xF4 \<longrightarrow> b \<le> 0x8F) \<and> continuation c \<and> continuation d \<and> utf8_valid es)"

lemma utf8_ascii: "(\<And>b. b \<in> set bs \<Longrightarrow> b \<le> 0x7F) \<Longrightarrow> utf8_valid bs"
  by (induction bs) auto

section \<open>Display\<close>

text \<open>The decimal text of a number.\<close>

fun dec :: "nat \<Rightarrow> string" where
  "dec n = (if n < 10 then [char_of (48 + n)] else dec (n div 10) @ [char_of (48 + n mod 10)])"

declare dec.simps [simp del]

definition display_usize :: "usize \<Rightarrow> string" where
  "display_usize n = dec (unat n)"

text \<open>\<open>{:?}\<close> of a token.\<close>

definition debug_token :: "Token \<Rightarrow> string" where
  "debug_token tok = ''Token('' @ display_usize (token_id tok) @ '')''"

section \<open>What the host provides\<close>

text \<open>
  The JSON functions, the iteration order of the hash set in the current call, and whether log
  records of the levels \<open>error\<close> and \<open>debug\<close> are enabled (the arguments of a log macro are
  evaluated only then).
\<close>

record host =
  ser :: json_writer
  de :: json_reader
  pick :: "usize set \<Rightarrow> usize"
  error_on :: bool
  debug_on :: bool

end
