(* ===== verification/Registry_Server.thy ===== *)
theory Registry_Server
  imports Net Access_Manager
begin

text \<open>
  The registry server of \<open>src/registry_server.rs\<close>: it numbers the clients, answers their requests
  from the access manager, tells those whose pending request was granted, and forwards what it
  handled to an optional backup server.

  Every handler is an action on the record \<open>RegistryServer\<close>. Logging is left out except where
  evaluating its arguments can panic.
\<close>

section \<open>State and errors\<close>

datatype RegistryServerError =
    IoError io_error
  | SerializationError serde_error
  | UnexpectedRequest
  | AccessManager AccessManagerError
  | InvalidToken Token
  | UnknownHolder Token
  | StopRequest

record RegistryServer =
  addr :: SocketAddr
  backup_addr :: "SocketAddr option"
  backup_stream :: "TcpStream option"
  backup_token :: Token
  primary_token :: Token
  first_connection :: bool
  access_manager :: AccessManager
  token_stream_map :: "Token \<rightharpoonup> TcpStream"
  token_addr_map :: "Token \<rightharpoonup> SocketAddr"
  poll :: Poll
  id_counter :: ProcId
  request_counter :: u64

type_synonym 'a rs_action = "(RegistryServer, RegistryServerError, 'a) action"

text \<open>The texts of the errors (\<open>thiserror\<close> generates \<open>Display\<close> from the attributes).\<close>

fun display_am_error :: "AccessManagerError \<Rightarrow> string" where
  "display_am_error (SendError _) = ''send error: sending on a closed channel''"
| "display_am_error (RequestAccess p k) =
     ''could not grant access request for proc: '' @ display_usize p @ '', with key: '' @ display_usize k"
| "display_am_error (ReleaseAccess p k) =
     ''could not release access for proc: '' @ display_usize p @ '', with key: '' @ display_usize k"
| "display_am_error KeyAccessed = ''key currently accessed''"
| "display_am_error (KeyExists k) = ''key already exist: '' @ display_usize k"
| "display_am_error (KeyNotFound k) = ''key not found: '' @ display_usize k"

fun display_rs_error :: "RegistryServerError \<Rightarrow> string" where
  "display_rs_error (IoError e) = ''IO error: '' @ io_text e"
| "display_rs_error (SerializationError e) = ''Serialization error: '' @ e"
| "display_rs_error UnexpectedRequest = ''Unexpected request''"
| "display_rs_error (AccessManager e) = ''Access manager error: '' @ display_am_error e"
| "display_rs_error (InvalidToken tok) = ''Invalid '' @ debug_token tok"
| "display_rs_error (UnknownHolder tok) = ''Unknown data holder '' @ debug_token tok"
| "display_rs_error StopRequest = ''Stop requested''"

section \<open>Construction\<close>

text \<open>
  \<open>connect\<close> and \<open>new_poll\<close> are the results of \<open>TcpStream::connect\<close> to the backup server and of
  \<open>Poll::new\<close>.
\<close>

definition new_registry_server ::
  "(SocketAddr \<Rightarrow> (io_error, TcpStream) outcome) \<Rightarrow> (io_error, Poll) outcome \<Rightarrow>
     u16 \<Rightarrow> SocketAddr option \<Rightarrow> (RegistryServerError, RegistryServer) outcome"
where
  "new_registry_server connect new_poll primary_port secondary_server =
     (let build = (\<lambda>stream.
        map_ok (\<lambda>p.
          \<lparr>addr = SocketAddrV4 0 primary_port, backup_addr = secondary_server,
           backup_stream = stream, backup_token = Token 999, primary_token = Token 1000,
           first_connection = True, access_manager = new_access_manager,
           token_stream_map = Map.empty, token_addr_map = Map.empty, poll = p,
           id_counter = 0, request_counter = 0\<rparr>) (map_err IoError new_poll))
      in case secondary_server of
           None \<Rightarrow> build None
         | Some a \<Rightarrow>
             (case connect a of
                Ok st \<Rightarrow> build (Some st)
              | Err e \<Rightarrow> Err (IoError e)
              | Panic p \<Rightarrow> Panic p
              | Exit n \<Rightarrow> Exit n))"

section \<open>Helpers that touch one part of the state\<close>

definition on_manager :: "'a am_action \<Rightarrow> (RegistryServer, AccessManagerError, 'a) action" where
  "on_manager m s = (let (r, am) = m (access_manager s) in (r, s\<lparr>access_manager := am\<rparr>))"

definition register :: "Token \<Rightarrow> unit rs_action" where
  "register tok s = (let (r, p) = poll_register tok (poll s) in (map_err IoError r, s\<lparr>poll := p\<rparr>))"

definition proc_id_to_addr :: "ProcId \<Rightarrow> SocketAddr rs_action" where
  "proc_id_to_addr proc_id s =
     (case token_addr_map s (Token proc_id) of
        Some a \<Rightarrow> (Ok a, s)
      | None \<Rightarrow> (Err (UnknownHolder (Token proc_id)), s))"

definition remove_client :: "Token \<Rightarrow> RegistryServer \<Rightarrow> RegistryServer" where
  "remove_client tok s =
     s\<lparr>token_stream_map := (token_stream_map s)(tok := None),
       token_addr_map := (token_addr_map s)(tok := None)\<rparr>"

definition handle_response :: "host \<Rightarrow> Token \<Rightarrow> RegistryResponse \<Rightarrow> unit rs_action" where
  "handle_response h tok response s =
     (case token_stream_map s tok of
        None \<Rightarrow> (Err (InvalidToken tok), s)
      | Some stream \<Rightarrow>
          (case to_vec (ser h) (registry_response response) of
             Ok data \<Rightarrow>
               (let (r, stream') = stream_write_all data stream
                in (map_err IoError r,
                    s\<lparr>token_stream_map := (token_stream_map s)(tok \<mapsto> stream')\<rparr>))
           | Err e \<Rightarrow> (Err (SerializationError e), s)
           | Panic p \<Rightarrow> (Panic p, s)
           | Exit n \<Rightarrow> (Exit n, s)))"

definition handle_error :: "host \<Rightarrow> Token \<Rightarrow> RegistryServerError \<Rightarrow> unit rs_action" where
  "handle_error h tok err = handle_response h tok (Error (display_rs_error err))"

definition forward_request :: "byte list \<Rightarrow> unit rs_action" where
  "forward_request data s =
     (case backup_stream s of
        None \<Rightarrow> (Ok (), s)
      | Some stream \<Rightarrow>
          (let (r, stream') = stream_write_all data stream
           in (map_err IoError r, s\<lparr>backup_stream := Some stream'\<rparr>)))"

section \<open>A new connection\<close>

text \<open>
  The first connection of a server without a backup is taken for the primary registry. Every other
  one gets the next number, is told it, and the backup is notified.
\<close>

definition handle_connection :: "host \<Rightarrow> TcpStream \<Rightarrow> SocketAddr \<Rightarrow> unit rs_action" where
  "handle_connection h stream a s =
     (if backup_addr s = None \<and> first_connection s then
        and_then (register (primary_token s)) (\<lambda>_ s.
          (Ok (), s\<lparr>token_stream_map := (token_stream_map s)(primary_token s \<mapsto> stream)\<rparr>))
          (s\<lparr>first_connection := False\<rparr>)
      else
        (case checked_succ (id_counter s) of
           Ok n \<Rightarrow>
             (let tok = Token n in
              and_then (register tok) (\<lambda>_ s.
                case to_vec (ser h) (registry_connection n) of
                  Ok data \<Rightarrow>
                    (case stream_write_all data stream of
                       (Ok _, stream') \<Rightarrow>
                         (let s = s\<lparr>token_stream_map := (token_stream_map s)(tok \<mapsto> stream'),
                                    token_addr_map := (token_addr_map s)(tok \<mapsto> a)\<rparr> in
                          case to_vec (ser h) (registry_connection_established (id_counter s)) of
                            Ok data \<Rightarrow> forward_request data s
                          | Err e \<Rightarrow> (Err (SerializationError e), s)
                          | Panic p \<Rightarrow> (Panic p, s)
                          | Exit n \<Rightarrow> (Exit n, s))
                     | (Err e, _) \<Rightarrow> (Err (IoError e), s)
                     | (Panic p, _) \<Rightarrow> (Panic p, s)
                     | (Exit n, _) \<Rightarrow> (Exit n, s))
                | Err e \<Rightarrow> (Err (SerializationError e), s)
                | Panic p \<Rightarrow> (Panic p, s)
                | Exit n \<Rightarrow> (Exit n, s))
                (s\<lparr>id_counter := n\<rparr>))
         | Err e \<Rightarrow> (Err e, s)
         | Panic p \<Rightarrow> (Panic p, s)
         | Exit n \<Rightarrow> (Exit n, s)))"

section \<open>A request\<close>

text \<open>
  The answers to a read (the address of the data holder, or \<open>Wait\<close>) and to a write (\<open>Success\<close>, or
  \<open>Wait\<close>); any other refusal of the access manager is an error.
\<close>

definition read_response :: "host \<Rightarrow> ProcId \<Rightarrow> KeyId \<Rightarrow> RegistryResponse rs_action" where
  "read_response h proc_id key_id s =
     (case on_manager (read_access (pick h) proc_id key_id) s of
        (Ok holder_id, s) \<Rightarrow> and_then (proc_id_to_addr holder_id) (\<lambda>a s. (Ok (Holder key_id a), s)) s
      | (Err err, s) \<Rightarrow>
          (case err of
             RequestAccess _ key_id \<Rightarrow> (Ok (Wait key_id), s)
           | _ \<Rightarrow> (Err (AccessManager err), s))
      | (Panic p, s) \<Rightarrow> (Panic p, s)
      | (Exit n, s) \<Rightarrow> (Exit n, s))"

definition write_response :: "ProcId \<Rightarrow> KeyId \<Rightarrow> RegistryResponse rs_action" where
  "write_response proc_id key_id s =
     (case on_manager (write_access proc_id key_id) s of
        (Ok _, s) \<Rightarrow> (Ok (Success key_id), s)
      | (Err err, s) \<Rightarrow>
          (case err of
             RequestAccess _ _ \<Rightarrow> (Ok (Wait key_id), s)
           | _ \<Rightarrow> (Err (AccessManager err), s))
      | (Panic p, s) \<Rightarrow> (Panic p, s)
      | (Exit n, s) \<Rightarrow> (Exit n, s))"

text \<open>The other requests are answered with \<open>Success\<close>, or with the error of the access manager.\<close>

definition success_response :: "unit am_action \<Rightarrow> KeyId \<Rightarrow> RegistryResponse rs_action" where
  "success_response m key_id s =
     apfst (map_err AccessManager \<circ> map_ok (\<lambda>_. Success key_id)) (on_manager m s)"

definition handle_message :: "host \<Rightarrow> Message \<Rightarrow> RegistryResponse rs_action" where
  "handle_message h message s =
     (case message of
        Registry RegistryMessage.StopRequest \<Rightarrow> (Err StopRequest, s)
      | Registry (ConnectionEstablished _) \<Rightarrow> (Ok Ack, s)
      | Registry (Request proc_id request_type key_id) \<Rightarrow>
          (case request_type of
             Create \<Rightarrow> success_response (create proc_id key_id) key_id s
           | Delete \<Rightarrow> success_response (delete key_id) key_id s
           | Read \<Rightarrow> read_response h proc_id key_id s
           | Write \<Rightarrow> write_response proc_id key_id s
           | Release \<Rightarrow> success_response (release (pick h) proc_id key_id) key_id s)
      | _ \<Rightarrow> (Err UnexpectedRequest, s))"

text \<open>
  The loop over the announced grants. A grant whose process has no stream is skipped; any other
  failure leaves the loop.
\<close>

fun deliver_grants :: "host \<Rightarrow> AccessGranted list \<Rightarrow> unit rs_action" where
  "deliver_grants h [] s = (Ok (), s)"
| "deliver_grants h ((proc_id, key_id, req_type, holder_id) # reqs) s =
     and_then
       (\<lambda>s. case req_type of
              Read \<Rightarrow> and_then (proc_id_to_addr holder_id) (\<lambda>a s. (Ok (Holder key_id a), s)) s
            | Write \<Rightarrow> (Ok (Success key_id), s)
            | _ \<Rightarrow> (Panic Unreachable, s))
       (\<lambda>response s.
          case handle_response h (Token proc_id) response s of
            (Err (InvalidToken _), s) \<Rightarrow> deliver_grants h reqs s
          | (Err err, s) \<Rightarrow> (Err err, s)
          | (Ok _, s) \<Rightarrow> deliver_grants h reqs s
          | (Panic p, s) \<Rightarrow> (Panic p, s)
          | (Exit n, s) \<Rightarrow> (Exit n, s)) s"

definition collect_requests :: "RegistryServer \<Rightarrow> AccessGranted list \<times> RegistryServer" where
  "collect_requests s =
     (let (gs, am) = collect_granted (access_manager s) in (gs, s\<lparr>access_manager := am\<rparr>))"

text \<open>\<open>request_counter += 1\<close>, then the exit of a primary server after its first request.\<close>

definition count_request :: "unit rs_action" where
  "count_request s =
     (case checked_succ (request_counter s) of
        Ok n \<Rightarrow>
          (let s = s\<lparr>request_counter := n\<rparr> in
           if backup_stream s \<noteq> None \<and> request_counter s = 1 then (Exit 0, s) else (Ok (), s))
      | Err e \<Rightarrow> (Err e, s)
      | Panic p \<Rightarrow> (Panic p, s)
      | Exit n \<Rightarrow> (Exit n, s))"

text \<open>The parser, with the log record whose argument is an \<open>unwrap\<close> of \<open>from_utf8\<close>.\<close>

definition parse_logged :: "host \<Rightarrow> byte list \<Rightarrow> (serde_error, Message) outcome" where
  "parse_logged h data =
     (case from_slice (de h) data of
        Err e \<Rightarrow> if error_on h \<and> \<not> utf8_valid data then Panic UnwrapErr else Err e
      | r \<Rightarrow> r)"

definition handle_request :: "host \<Rightarrow> Token \<Rightarrow> byte list \<Rightarrow> unit rs_action" where
  "handle_request h tok data =
     and_then (\<lambda>s. (map_err SerializationError (parse_logged h data), s)) (\<lambda>message.
     and_then (handle_message h message) (\<lambda>response.
     and_then (handle_response h tok response) (\<lambda>_ s.
       let (requests, s) = collect_requests s in
       and_then (deliver_grants h requests) (\<lambda>_.
       and_then (forward_request data) (\<lambda>_.
       count_request)) s)))"

section \<open>Data on a stream\<close>

text \<open>The branch of \<open>handle_data\<close> for bytes of a client: any error but \<open>StopRequest\<close> is answered.\<close>

definition answer_request :: "host \<Rightarrow> Token \<Rightarrow> byte list \<Rightarrow> unit rs_action" where
  "answer_request h tok data s =
     (case handle_request h tok data s of
        (Err err, s) \<Rightarrow> if err = StopRequest then (Err StopRequest, s) else handle_error h tok err s
      | r \<Rightarrow> r)"

text \<open>
  One \<open>read\<close> of at most 256 bytes from the stream of the token, which must be there. No bytes is
  the end of the stream.
\<close>

definition handle_data :: "host \<Rightarrow> Token \<Rightarrow> unit rs_action" where
  "handle_data h tok s =
     (let is_backup = (token_id tok = token_id (backup_token s)) in
      case (if is_backup then backup_stream s else token_stream_map s tok) of
        None \<Rightarrow> (Panic UnwrapNone, s)
      | Some stream \<Rightarrow>
          (let (read, stream') = stream_read 256 stream;
               s = (if is_backup then s\<lparr>backup_stream := Some stream'\<rparr>
                    else s\<lparr>token_stream_map := (token_stream_map s)(tok \<mapsto> stream')\<rparr>) in
           case read of
             Ok data \<Rightarrow>
               if data = [] then (Ok (), if is_backup then s else remove_client tok s)
               else if is_backup then (Ok (), s)
               else answer_request h tok data s
           | Err e \<Rightarrow>
               if kind e = ConnectionReset then (Err (IoError e), remove_client tok s)
               else if kind e = WouldBlock then (Ok (), s)
               else (Err (IoError e), s)
           | Panic p \<Rightarrow> (Panic p, s)
           | Exit n \<Rightarrow> (Exit n, s)))"

section \<open>The event loop\<close>

text \<open>
  What \<open>poll\<close> reports: a token, whether it is readable, and, for the listener, the results of the
  calls of \<open>accept\<close> up to the one that would block. Every event has its own iteration order.
\<close>

datatype poll_event =
  PollEvent Token bool "(io_error + TcpStream \<times> SocketAddr) list" "usize set \<Rightarrow> usize"

fun accept_loop :: "host \<Rightarrow> (io_error + TcpStream \<times> SocketAddr) list \<Rightarrow> unit rs_action" where
  "accept_loop h [] s = (Ok (), s)"
| "accept_loop h (Inr (stream, a) # rest) s =
     and_then (handle_connection h stream a) (\<lambda>_. accept_loop h rest) s"
| "accept_loop h (Inl e # rest) s =
     (if kind e = WouldBlock then (Ok (), s)
      else (Panic (Explicit (''Unexpected error: '' @ io_text e)), s))"

abbreviation LISTENER :: Token where
  "LISTENER \<equiv> Token 0"

text \<open>One event; the value says whether the loop goes on.\<close>

fun serve_event :: "host \<Rightarrow> poll_event \<Rightarrow> bool rs_action" where
  "serve_event h (PollEvent tok readable accepts choice) s =
     (let h = h\<lparr>pick := choice\<rparr> in
      if tok = LISTENER then and_then (accept_loop h accepts) (\<lambda>_ s. (Ok True, s)) s
      else if readable then
        (case handle_data h tok s of
           (Err StopRequest, s) \<Rightarrow> (Ok False, s)
         | (Err _, s) \<Rightarrow> (Ok True, s)
         | (Ok _, s) \<Rightarrow> (Ok True, s)
         | (Panic p, s) \<Rightarrow> (Panic p, s)
         | (Exit n, s) \<Rightarrow> (Exit n, s))
      else (Ok True, s))"

fun serve_events :: "host \<Rightarrow> poll_event list \<Rightarrow> bool rs_action" where
  "serve_events h [] s = (Ok True, s)"
| "serve_events h (e # es) s =
     and_then (serve_event h e) (\<lambda>continue. if continue then serve_events h es else (\<lambda>s. (Ok False, s))) s"

text \<open>
  The loop over the results of \<open>poll\<close>; \<open>Ok True\<close> at the end of the list is a server that waits
  for the next event.
\<close>

fun poll_loop :: "host \<Rightarrow> (io_error + poll_event list) list \<Rightarrow> bool rs_action" where
  "poll_loop h [] s = (Ok True, s)"
| "poll_loop h (Inl e # rest) s = (Err (IoError e), s)"
| "poll_loop h (Inr events # rest) s =
     and_then (serve_events h events) (\<lambda>continue. if continue then poll_loop h rest else (\<lambda>s. (Ok False, s))) s"

definition bind_server ::
  "host \<Rightarrow> (io_error, unit) outcome \<Rightarrow> (io_error + poll_event list) list \<Rightarrow> bool rs_action"
where
  "bind_server h listen polls =
     and_then (\<lambda>s. (map_err IoError listen, s)) (\<lambda>_.
     and_then (register LISTENER) (\<lambda>_.
     and_then (\<lambda>s. if backup_stream s \<noteq> None then register (backup_token s) s else (Ok (), s)) (\<lambda>_.
     poll_loop h polls)))"

end
