(* ===== verification/Registry_Invariant.thy ===== *)
theory Registry_Invariant
  imports Registry_Server Lock_Service
begin

text \<open>
  The footprint of each handler of the registry server (which parts of the state it can change),
  the invariant of the server, and the states it can reach.
\<close>

section \<open>Runs of the access manager inside the server\<close>

definition am_run :: "AccessManager \<Rightarrow> AccessManager \<Rightarrow> bool" where
  "am_run am am' \<longleftrightarrow> (\<exists>xs. am' = snd (run_ops am_step xs am))"

lemma am_run_refl [simp, intro]: "am_run am am"
  unfolding am_run_def by (rule exI [of _ "[]"]) simp

lemma am_run_step: "am_run am (snd (am_step x am))"
  unfolding am_run_def by (rule exI [of _ "[x]"]) (simp add: Let_def split_beta)

lemma am_run_trans: "am_run a b \<Longrightarrow> am_run b c \<Longrightarrow> am_run a c"
  unfolding am_run_def by (metis run_ops_append)

lemma am_run_reachable:
  assumes "am_run am am'" and "am_reachable am"
  shows "am_reachable am'"
proof -
  have "am_reachable (snd (run_ops am_step xs am))" for xs
    using assms(2) by (induction xs arbitrary: am) (simp_all add: Let_def split_beta am_reachable.step)
  with assms(1) show ?thesis by (auto simp: am_run_def)
qed

text \<open>Every announcement in the channel is of a read or a write.\<close>

definition grant_ok :: "AccessGranted \<Rightarrow> bool" where
  "grant_ok g \<longleftrightarrow> fst (snd (snd g)) = Read \<or> fst (snd (snd g)) = Write"

definition grants_inv :: "AccessManager \<Rightarrow> bool" where
  "grants_inv am \<longleftrightarrow> am_inv am \<and> list_all grant_ok (buffer (access_granted am))"

lemma grants_inv_new: "grants_inv new_access_manager"
  using new_access_manager_inv by (simp add: grants_inv_def new_access_manager_def channel_new_def)

lemma grants_inv_release:
  assumes "grants_inv am"
  shows "grants_inv (snd (release pk p k am))"
proof -
  have inv: "am_inv am" and old: "list_all grant_ok (buffer (access_granted am))"
    using assms by (auto simp: grants_inv_def)
  have "list_all grant_ok (buffer (access_granted (snd (release pk p k am))))"
  proof (cases "key_states am k")
    case None
    with inv old show ?thesis by (simp add: release_eq)
  next
    case (Some ks)
    show ?thesis
    proof (cases "drop_holder p ks")
      case None
      with Some inv old show ?thesis by (simp add: release_eq)
    next
      case (Some ks')
      have "list_all lock_request (pending_request ks')"
        using am_invD(2) [OF inv \<open>key_states am k = Some ks\<close>] drop_holder_facts(1) [OF Some]
        by (simp add: ks_inv_def)
      then have "list_all lock_request (fst (admit ks'))" by (rule list_all_admit)
      then have "list_all grant_ok (map (announce k (creator ks)) (fst (admit ks')))"
        by (simp add: list_all_iff grant_ok_def announce_def lock_request_def)
      with \<open>key_states am k = Some ks\<close> Some inv old show ?thesis
        by (simp add: release_eq put_key_state_def)
    qed
  qed
  with release_inv [OF inv] show ?thesis by (simp add: grants_inv_def)
qed

lemma grants_inv_step:
  assumes "grants_inv am"
  shows "grants_inv (snd (am_step x am))"
proof -
  have inv: "am_inv (snd (am_step x am))"
    using assms by (intro am_step_inv) (simp add: grants_inv_def)
  show ?thesis
  proof (cases x rule: am_step_cases)
    case (on_release pk p k)
    with assms show ?thesis by (simp add: grants_inv_release)
  qed (use assms inv in \<open>auto simp: grants_inv_def create_eq delete_eq read_access_eq
        write_access_eq put_key_state_def collect_granted_def try_iter_def
        split: option.splits if_splits\<close>)
qed

lemma am_reachable_grants: "am_reachable am \<Longrightarrow> grants_inv am"
  by (induction rule: am_reachable.induct) (simp_all add: grants_inv_new grants_inv_step)

section \<open>Footprints\<close>

text \<open>
  A handler of a request can change the manager (by a run of it), what has been written to the
  streams (but not which tokens have one), what has been written to the backup, and the request
  counter. Nothing else of the server changes.
\<close>

definition request_footprint :: "RegistryServer \<Rightarrow> RegistryServer \<Rightarrow> bool" where
  "request_footprint s s' \<longleftrightarrow>
     am_run (access_manager s) (access_manager s') \<and>
     dom (token_stream_map s') = dom (token_stream_map s) \<and>
     (backup_stream s' = None \<longleftrightarrow> backup_stream s = None) \<and>
     addr s' = addr s \<and> backup_addr s' = backup_addr s \<and> backup_token s' = backup_token s \<and>
     primary_token s' = primary_token s \<and> first_connection s' = first_connection s \<and>
     token_addr_map s' = token_addr_map s \<and> poll s' = poll s \<and> id_counter s' = id_counter s"

lemma footprint_refl [simp, intro]: "request_footprint s s"
  by (simp add: request_footprint_def)

lemma footprint_trans:
  "request_footprint a b \<Longrightarrow> request_footprint b c \<Longrightarrow> request_footprint a c"
  by (auto simp: request_footprint_def intro: am_run_trans)

text \<open>A sequence of steps with the footprint has the footprint.\<close>

lemma footprint_and_then:
  assumes "request_footprint s (snd (m s))"
    and "\<And>x s'. m s = (Ok x, s') \<Longrightarrow> request_footprint s' (snd (f x s'))"
  shows "request_footprint s (snd (and_then m f s))"
proof (cases "m s")
  case (Pair r s')
  with assms show ?thesis
    by (cases r) (auto intro: footprint_trans)
qed

lemma footprint_on_manager:
  assumes "am_run (access_manager s) (snd (m (access_manager s)))"
  shows "request_footprint s (snd (on_manager m s))"
  using assms by (simp add: request_footprint_def on_manager_def split_beta)

lemma am_run_calls:
  "am_run am (snd (create p k am))"
  "am_run am (snd (delete k am))"
  "am_run am (snd (read_access pk p k am))"
  "am_run am (snd (write_access p k am))"
  "am_run am (snd (release pk p k am))"
  "am_run am (snd (collect_granted am))"
  using am_run_step [of am "(pk, Call p Create k)"] am_run_step [of am "(pk, Call p Delete k)"]
    am_run_step [of am "(pk, Call p Read k)"] am_run_step [of am "(pk, Call p Write k)"]
    am_run_step [of am "(pk, Call p Release k)"] am_run_step [of am "(pk, Collect)"]
  by simp_all

lemma footprint_handle_response: "request_footprint s (snd (handle_response h tok r s))"
  by (auto simp: request_footprint_def handle_response_def split_beta split: option.splits outcome.splits)

lemma footprint_proc_id_to_addr: "snd (proc_id_to_addr p s) = s"
  by (simp add: proc_id_to_addr_def split: option.split)

lemma footprint_forward: "request_footprint s (snd (forward_request data s))"
  by (auto simp: request_footprint_def forward_request_def split_beta split: option.splits)

lemma footprint_collect: "request_footprint s (snd (collect_requests s))"
  by (simp add: request_footprint_def collect_requests_def split_beta am_run_calls)

lemma footprint_count: "request_footprint s (snd (count_request s))"
  by (auto simp: request_footprint_def count_request_def checked_succ_def Let_def)

lemma footprint_deliver: "request_footprint s (snd (deliver_grants h gs s))"
proof (induction gs arbitrary: s)
  case Nil
  then show ?case by simp
next
  case (Cons g gs)
  obtain p k t hold where g: "g = (p, k, t, hold)" by (metis prod.exhaust)
  have tail: "request_footprint s' (snd (case handle_response h (Token p) response s' of
            (Err (InvalidToken _), s) \<Rightarrow> deliver_grants h gs s
          | (Err err, s) \<Rightarrow> (Err err, s)
          | (Ok _, s) \<Rightarrow> deliver_grants h gs s
          | (Panic p, s) \<Rightarrow> (Panic p, s)
          | (Exit n, s) \<Rightarrow> (Exit n, s)))" for response s'
    using footprint_handle_response [of s' h "Token p" response] Cons.IH
    by (auto split: prod.split outcome.split RegistryServerError.split intro: footprint_trans)
  show ?case
    unfolding g deliver_grants.simps
    by (rule footprint_and_then)
       (auto simp: tail and_then_def proc_id_to_addr_def split: RequestType.split option.split)
qed

lemma footprint_success_response:
  "am_run (access_manager s) (snd (m (access_manager s))) \<Longrightarrow>
     request_footprint s (snd (success_response m k s))"
  using footprint_on_manager [of s m] by (simp add: success_response_def)

lemma footprint_read_response: "request_footprint s (snd (read_response h p k s))"
  using footprint_on_manager [of s "read_access (pick h) p k", OF am_run_calls(3)]
  by (auto simp: read_response_def and_then_def proc_id_to_addr_def
      split: prod.split outcome.split AccessManagerError.split option.split)

lemma footprint_write_response: "request_footprint s (snd (write_response p k s))"
  using footprint_on_manager [of s "write_access p k", OF am_run_calls(4)]
  by (auto simp: write_response_def split: prod.split outcome.split AccessManagerError.split)

lemma footprint_handle_message: "request_footprint s (snd (handle_message h msg s))"
  unfolding handle_message_def
  by (auto simp: footprint_success_response footprint_read_response footprint_write_response
      am_run_calls split: Message.split RegistryMessage.split RequestType.split)

lemma footprint_handle_request: "request_footprint s (snd (handle_request h tok data s))"
  unfolding handle_request_def
proof (rule footprint_and_then)
  fix message :: Message and s1 :: RegistryServer
  show "request_footprint s1 (snd (and_then (handle_message h message) (\<lambda>response.
     and_then (handle_response h tok response) (\<lambda>_ s.
       let (requests, s) = collect_requests s in
       and_then (deliver_grants h requests) (\<lambda>_.
       and_then (forward_request data) (\<lambda>_.
       count_request)) s)) s1))"
  proof (rule footprint_and_then [OF footprint_handle_message],
      rule footprint_and_then [OF footprint_handle_response])
    fix s2 :: RegistryServer
    obtain gs s3 where c: "collect_requests s2 = (gs, s3)" by fastforce
    have "request_footprint s3 (snd (and_then (deliver_grants h gs) (\<lambda>_.
        and_then (forward_request data) (\<lambda>_. count_request)) s3))"
      by (rule footprint_and_then [OF footprint_deliver],
          rule footprint_and_then [OF footprint_forward], rule footprint_count)
    with footprint_collect [of s2] c
    show "request_footprint s2 (snd (let (requests, s) = collect_requests s2 in
        and_then (deliver_grants h requests) (\<lambda>_.
        and_then (forward_request data) (\<lambda>_. count_request)) s))"
      by (auto intro: footprint_trans)
  qed
qed simp

section \<open>The invariant\<close>

text \<open>
  The manager is in a state its calls can reach; clients with an address have a stream, and the only
  other stream is that of the primary registry; client tokens are numbers already given out.
\<close>

definition rs_inv :: "RegistryServer \<Rightarrow> bool" where
  "rs_inv s \<longleftrightarrow>
     am_reachable (access_manager s) \<and>
     dom (token_addr_map s) \<subseteq> dom (token_stream_map s) \<and>
     dom (token_stream_map s) \<subseteq> insert (Token 1000) (dom (token_addr_map s)) \<and>
     (\<forall>tok \<in> dom (token_addr_map s). Token 0 < tok \<and> tok \<le> Token (id_counter s)) \<and>
     (backup_stream s = None \<longleftrightarrow> backup_addr s = None) \<and>
     backup_token s = Token 999 \<and> primary_token s = Token 1000"

lemma rs_inv_new:
  "new_registry_server connect new_poll port secondary = Ok s \<Longrightarrow> rs_inv s"
  by (cases secondary)
     (auto simp: new_registry_server_def rs_inv_def am_reachable.start Let_def
       split: outcome.splits elim!: map_ok.elims map_err.elims)

lemma rs_inv_footprint: "rs_inv s \<Longrightarrow> request_footprint s s' \<Longrightarrow> rs_inv s'"
  by (auto simp: rs_inv_def request_footprint_def intro: am_run_reachable)

lemma rs_inv_remove_client: "rs_inv s \<Longrightarrow> rs_inv (remove_client tok s)"
  unfolding rs_inv_def remove_client_def by simp blast

text \<open>Reading changes a stream, but not which tokens have one.\<close>

lemma footprint_stream:
  "token_stream_map s tok = Some st \<Longrightarrow>
     request_footprint s (s\<lparr>token_stream_map := (token_stream_map s)(tok \<mapsto> st')\<rparr>)"
  by (auto simp: request_footprint_def)

lemma footprint_backup:
  "backup_stream s = Some st \<Longrightarrow> request_footprint s (s\<lparr>backup_stream := Some st'\<rparr>)"
  by (auto simp: request_footprint_def)

lemma footprint_answer: "request_footprint s (snd (answer_request h tok data s))"
  using footprint_handle_request [of s h tok data]
  by (auto simp: answer_request_def handle_error_def split: prod.split outcome.split
      intro: footprint_trans footprint_handle_response)

text \<open>What \<open>handle_data\<close> can leave: a request footprint, or that and one client less.\<close>

lemma handle_data_effect:
  "\<exists>s'. request_footprint s s' \<and>
     (snd (handle_data h tok s) = s' \<or> snd (handle_data h tok s) = remove_client tok s')"
proof -
  define is_backup where "is_backup \<longleftrightarrow> token_id tok = token_id (backup_token s)"
  show ?thesis
  proof (cases "if is_backup then backup_stream s else token_stream_map s tok")
    case None
    then have "handle_data h tok s = (Panic UnwrapNone, s)"
      by (simp add: handle_data_def is_backup_def)
    then show ?thesis by (intro exI [of _ s]) simp
  next
    case (Some st)
    obtain r st' where rd: "stream_read 256 st = (r, st')" by fastforce
    define s1 where "s1 = (if is_backup then s\<lparr>backup_stream := Some st'\<rparr>
        else s\<lparr>token_stream_map := (token_stream_map s)(tok \<mapsto> st')\<rparr>)"
    have fp1: "request_footprint s s1"
      using Some by (auto simp: s1_def intro: footprint_stream footprint_backup split: if_splits)
    have "snd (handle_data h tok s) \<in> {s1, remove_client tok s1} \<union>
        (\<lambda>data. snd (answer_request h tok data s1)) ` UNIV"
      using Some rd
      by (cases r) (auto simp: handle_data_def is_backup_def s1_def Let_def)
    with fp1 footprint_trans [OF fp1 footprint_answer] show ?thesis by auto
  qed
qed

lemma rs_inv_handle_data:
  assumes "rs_inv s"
  shows "rs_inv (snd (handle_data h tok s))"
proof -
  obtain s' where fp: "request_footprint s s'"
    and "snd (handle_data h tok s) = s' \<or> snd (handle_data h tok s) = remove_client tok s'"
    using handle_data_effect by blast
  with rs_inv_footprint [OF assms fp] rs_inv_remove_client show ?thesis by auto
qed

section \<open>Connections\<close>

lemma succ_greater: "x \<noteq> - 1 \<Longrightarrow> x < x + 1" for x :: "'n::len word"
  by (simp add: word_less_nat_alt unat_succ)

lemma rs_inv_register: "rs_inv s \<Longrightarrow> rs_inv (snd (register tok s))"
  unfolding register_def rs_inv_def by (simp add: split_beta)

lemma rs_inv_count_id:
  assumes "rs_inv s" and "checked_succ (id_counter s) = Ok n"
  shows "rs_inv (s\<lparr>id_counter := n\<rparr>)" and "Token 0 < Token n"
proof -
  from assms(2) have n: "n = id_counter s + 1" "id_counter s \<noteq> - 1"
    by (auto simp: checked_succ_def split: if_splits)
  then have less: "id_counter s < n" using succ_greater [of "id_counter s"] by simp
  then have "Token (id_counter s) \<le> Token n" by (simp add: less_eq_Token_def)
  with assms(1) show "rs_inv (s\<lparr>id_counter := n\<rparr>)"
    unfolding rs_inv_def by simp (meson order_trans)
  show "Token 0 < Token n"
    using less by (simp add: less_Token_def order_le_less_trans)
qed

text \<open>Adding a client: a stream and an address for the token of the current number.\<close>

lemma rs_inv_add_client:
  assumes "rs_inv s" and "Token 0 < Token (id_counter s)"
  shows "rs_inv (s\<lparr>token_stream_map := (token_stream_map s)(Token (id_counter s) \<mapsto> st),
                   token_addr_map := (token_addr_map s)(Token (id_counter s) \<mapsto> a)\<rparr>)"
  using assms unfolding rs_inv_def by simp blast

lemma rs_inv_add_primary:
  "rs_inv s \<Longrightarrow>
     rs_inv (s\<lparr>token_stream_map := (token_stream_map s)(primary_token s \<mapsto> st)\<rparr>)"
  unfolding rs_inv_def by simp blast

text \<open>The invariant along a sequence of steps.\<close>

lemma inv_and_then:
  assumes "rs_inv (snd (m s))"
    and "\<And>x s'. m s = (Ok x, s') \<Longrightarrow> rs_inv (snd (f x s'))"
  shows "rs_inv (snd (and_then m f s))"
proof (cases "m s")
  case (Pair r s')
  with assms show ?thesis by (cases r) auto
qed

lemma register_id: "id_counter (snd (register tok s)) = id_counter s"
  by (simp add: register_def split_beta)

text \<open>The part of \<open>handle_connection\<close> behind the registration of a client.\<close>

definition greet :: "host \<Rightarrow> TcpStream \<Rightarrow> SocketAddr \<Rightarrow> ProcId \<Rightarrow> unit rs_action" where
  "greet h stream a n s =
     (case to_vec (ser h) (registry_connection n) of
        Ok data \<Rightarrow>
          (case stream_write_all data stream of
             (Ok _, stream') \<Rightarrow>
               (let s = s\<lparr>token_stream_map := (token_stream_map s)(Token n \<mapsto> stream'),
                          token_addr_map := (token_addr_map s)(Token n \<mapsto> a)\<rparr> in
                case to_vec (ser h) (registry_connection_established (id_counter s)) of
                  Ok data \<Rightarrow> forward_request data s
                | Err e \<Rightarrow> (Err (SerializationError e), s)
                | Panic p \<Rightarrow> (Panic p, s)
                | Exit n \<Rightarrow> (Exit n, s))
           | (Err e, _) \<Rightarrow> (Err (IoError e), s)
           | (Panic p, _) \<Rightarrow> (Panic p, s)
           | (Exit n, _) \<Rightarrow> (Exit n, s))
      | Err e \<Rightarrow> (Err (SerializationError e), s)
      | Panic p \<Rightarrow> (Panic p, s)
      | Exit n \<Rightarrow> (Exit n, s))"

lemma handle_connection_eq:
  "handle_connection h stream a s =
     (if backup_addr s = None \<and> first_connection s then
        and_then (register (primary_token s)) (\<lambda>_ s.
          (Ok (), s\<lparr>token_stream_map := (token_stream_map s)(primary_token s \<mapsto> stream)\<rparr>))
          (s\<lparr>first_connection := False\<rparr>)
      else if id_counter s = - 1 then (Panic Overflow, s)
      else and_then (register (Token (id_counter s + 1)))
             (\<lambda>_. greet h stream a (id_counter s + 1)) (s\<lparr>id_counter := id_counter s + 1\<rparr>))"
  unfolding handle_connection_def greet_def checked_succ_def Let_def by simp

lemma rs_inv_greet:
  assumes "rs_inv s" and "id_counter s = n" and "Token 0 < Token n"
  shows "rs_inv (snd (greet h stream a n s))"
proof -
  have add: "rs_inv (s\<lparr>token_stream_map := (token_stream_map s)(Token n \<mapsto> st),
                       token_addr_map := (token_addr_map s)(Token n \<mapsto> a)\<rparr>)" for st
    using rs_inv_add_client [of s, where st = st and a = a] assms by simp
  show ?thesis
    using assms(1) add rs_inv_footprint [OF add footprint_forward]
    by (auto simp: greet_def Let_def split: outcome.split prod.split)
qed

lemma rs_inv_first_connection: "rs_inv s \<Longrightarrow> rs_inv (s\<lparr>first_connection := b\<rparr>)"
  by (simp add: rs_inv_def)

lemma rs_inv_handle_connection:
  assumes "rs_inv s"
  shows "rs_inv (snd (handle_connection h stream a s))"
proof (cases "backup_addr s = None \<and> first_connection s")
  case True
  have "rs_inv (snd (and_then (register (primary_token s)) (\<lambda>_ s.
          (Ok (), s\<lparr>token_stream_map := (token_stream_map s)(primary_token s \<mapsto> stream)\<rparr>))
          (s\<lparr>first_connection := False\<rparr>)))"
  proof (rule inv_and_then)
    show reg: "rs_inv (snd (register (primary_token s) (s\<lparr>first_connection := False\<rparr>)))"
      using assms by (intro rs_inv_register rs_inv_first_connection)
    fix x s'
    assume "register (primary_token s) (s\<lparr>first_connection := False\<rparr>) = (Ok x, s')"
    with reg rs_inv_add_primary [of s' stream] show "rs_inv (snd (Ok (),
        s'\<lparr>token_stream_map := (token_stream_map s')(primary_token s' \<mapsto> stream)\<rparr>))"
      by simp
  qed
  with True show ?thesis by (simp add: handle_connection_eq)
next
  case False
  show ?thesis
  proof (cases "id_counter s = - 1")
    case True
    with False assms show ?thesis by (auto simp: handle_connection_eq)
  next
    case next_id: False
    let ?n = "id_counter s + 1"
    have succ: "checked_succ (id_counter s) = (Ok ?n :: (unit, ProcId) outcome)"
      using next_id by (simp add: checked_succ_def)
    have "rs_inv (snd (and_then (register (Token ?n)) (\<lambda>_. greet h stream a ?n)
        (s\<lparr>id_counter := ?n\<rparr>)))"
    proof (rule inv_and_then)
      show reg: "rs_inv (snd (register (Token ?n) (s\<lparr>id_counter := ?n\<rparr>)))"
        using rs_inv_count_id(1) [OF assms succ] by (rule rs_inv_register)
      fix x s'
      assume "register (Token ?n) (s\<lparr>id_counter := ?n\<rparr>) = (Ok x, s')"
      with reg register_id [of "Token ?n" "s\<lparr>id_counter := ?n\<rparr>"] rs_inv_count_id(2) [OF assms succ]
      show "rs_inv (snd (greet h stream a ?n s'))"
        by (intro rs_inv_greet) simp_all
    qed
    with False next_id show ?thesis by (auto simp: handle_connection_eq)
  qed
qed

section \<open>Events and reachable states\<close>

lemma rs_inv_accept_loop: "rs_inv s \<Longrightarrow> rs_inv (snd (accept_loop h accepts s))"
proof (induction h accepts s rule: accept_loop.induct)
  case (2 h stream a rest s)
  show ?case
    unfolding accept_loop.simps
  proof (rule inv_and_then)
    show conn: "rs_inv (snd (handle_connection h stream a s))"
      using 2(2) by (rule rs_inv_handle_connection)
    fix x s'
    assume "handle_connection h stream a s = (Ok x, s')"
    with conn 2(1) [of s'] show "rs_inv (snd (accept_loop h rest s'))" by simp
  qed
qed simp_all

lemma rs_inv_serve_event:
  assumes "rs_inv s"
  shows "rs_inv (snd (serve_event h e s))"
proof (cases e)
  case (PollEvent tok readable accepts choice)
  let ?h = "h\<lparr>pick := choice\<rparr>"
  have "rs_inv (snd (and_then (accept_loop ?h accepts) (\<lambda>_ s. (Ok True, s)) s))"
    by (rule inv_and_then) (use rs_inv_accept_loop [OF assms, of ?h accepts] in auto)
  with assms rs_inv_handle_data [OF assms, of ?h tok] show ?thesis
    by (auto simp: PollEvent Let_def
        split: prod.split outcome.split RegistryServerError.split)
qed

text \<open>The events of a run, each handled in the state the one before it left.\<close>

inductive rs_reachable :: "RegistryServer \<Rightarrow> bool" where
  start: "new_registry_server connect new_poll port secondary = Ok s \<Longrightarrow> rs_reachable s"
| event: "rs_reachable s \<Longrightarrow> serve_event h e s = (Ok True, s') \<Longrightarrow> rs_reachable s'"

lemma rs_reachable_inv: "rs_reachable s \<Longrightarrow> rs_inv s"
proof (induction rule: rs_reachable.induct)
  case (start connect new_poll port secondary s)
  then show ?case by (rule rs_inv_new)
next
  case (event s h e s')
  from rs_inv_serve_event [OF event.IH, of h e] event.hyps(2) show ?case by simp
qed

lemma rs_reachable_manager: "rs_reachable s \<Longrightarrow> am_reachable (access_manager s)"
  using rs_reachable_inv by (auto simp: rs_inv_def)

section \<open>When a handler panics\<close>

lemma panic_and_then:
  "is_panic (fst (and_then m f s)) \<longleftrightarrow>
     is_panic (fst (m s)) \<or> (\<exists>x s'. m s = (Ok x, s') \<and> is_panic (fst (f x s')))"
  by (cases "m s"; cases "fst (m s)") (auto simp: and_then_def)

lemma handle_response_safe: "json_total (ser h) (de h) \<Longrightarrow> \<not> is_panic (fst (handle_response h tok r s))"
  by (rule to_vec_total [of "ser h" "de h" "registry_response r"])
     (auto simp: handle_response_def split_beta split: option.split)

lemma proc_id_to_addr_safe: "\<not> is_panic (fst (proc_id_to_addr p s))"
  by (simp add: proc_id_to_addr_def split: option.split)

lemma forward_safe: "\<not> is_panic (fst (forward_request data s))"
  by (auto simp: forward_request_def split_beta split: option.split)

lemma count_safe: "is_panic (fst (count_request s)) \<longleftrightarrow> request_counter s = - 1"
  by (simp add: count_request_def checked_succ_def Let_def)

lemma deliver_safe:
  "json_total (ser h) (de h) \<Longrightarrow> list_all grant_ok gs \<Longrightarrow> \<not> is_panic (fst (deliver_grants h gs s))"
proof (induction gs arbitrary: s)
  case Nil
  then show ?case by simp
next
  case (Cons g gs)
  obtain p k t hold where g: "g = (p, k, t, hold)" by (metis prod.exhaust)
  with Cons.prems(2) have t: "t = Read \<or> t = Write" by (simp add: grant_ok_def)
  have tail: "\<not> is_panic (fst (case handle_response h (Token p) response s' of
            (Err (InvalidToken _), s) \<Rightarrow> deliver_grants h gs s
          | (Err err, s) \<Rightarrow> (Err err, s)
          | (Ok _, s) \<Rightarrow> deliver_grants h gs s
          | (Panic p, s) \<Rightarrow> (Panic p, s)
          | (Exit n, s) \<Rightarrow> (Exit n, s)))" for response s'
    using handle_response_safe [OF Cons.prems(1), of "Token p" response s'] Cons.IH Cons.prems
    by (auto split: prod.split outcome.split RegistryServerError.split)
  from t show ?case
    unfolding g deliver_grants.simps panic_and_then
    by (auto simp: tail and_then_def proc_id_to_addr_def split: option.split_asm)
qed

lemma am_good_map_ok [simp]: "am_good (map_ok f r) = am_good r"
  by (cases r) simp_all

lemma am_good_no_panic: "am_good r \<Longrightarrow> \<not> is_panic r"
  by (cases r) simp_all

lemma am_calls_good:
  assumes "am_inv am"
  shows "am_good (fst (create p k am))" and "am_good (fst (delete k am))"
    and "am_good (fst (read_access pk p k am))" and "am_good (fst (write_access p k am))"
    and "am_good (fst (release pk p k am))"
  using am_step_good [OF assms, of "(pk, Call p Create k)"]
    am_step_good [OF assms, of "(pk, Call p Delete k)"]
    am_step_good [OF assms, of "(pk, Call p Read k)"]
    am_step_good [OF assms, of "(pk, Call p Write k)"]
    am_step_good [OF assms, of "(pk, Call p Release k)"]
  by simp_all

lemmas am_calls_safe = am_calls_good [THEN am_good_no_panic]

lemma on_manager_fst [simp]: "fst (on_manager m s) = fst (m (access_manager s))"
  by (simp add: on_manager_def split_beta)

lemma success_response_safe:
  "\<not> is_panic (fst (m (access_manager s))) \<Longrightarrow> \<not> is_panic (fst (success_response m k s))"
  by (simp add: success_response_def)

lemma read_response_safe:
  assumes "am_inv (access_manager s)"
  shows "\<not> is_panic (fst (read_response h p k s))"
proof (cases "on_manager (read_access (pick h) p k) s")
  case (Pair r s')
  then have "\<not> is_panic r"
    using am_calls_safe(3) [OF assms, of "pick h" p k] on_manager_fst [of "read_access (pick h) p k" s]
    by simp
  with Pair show ?thesis
    by (cases r) (auto simp: read_response_def panic_and_then proc_id_to_addr_safe
        split: AccessManagerError.split)
qed

lemma write_response_safe:
  assumes "am_inv (access_manager s)"
  shows "\<not> is_panic (fst (write_response p k s))"
proof (cases "on_manager (write_access p k) s")
  case (Pair r s')
  then have "\<not> is_panic r"
    using am_calls_safe(4) [OF assms, of p k] on_manager_fst [of "write_access p k" s] by simp
  with Pair show ?thesis
    by (cases r) (auto simp: write_response_def split: AccessManagerError.split)
qed

lemma handle_message_safe:
  assumes "am_inv (access_manager s)"
  shows "\<not> is_panic (fst (handle_message h m s))"
  by (auto simp: handle_message_def read_response_safe [OF assms] write_response_safe [OF assms]
      success_response_safe am_calls_safe [OF assms]
      split: Message.split RegistryMessage.split RequestType.split)

text \<open>No step before the last one touches the request counter.\<close>

lemma counter_unchanged:
  "request_counter (snd (handle_response h tok r s)) = request_counter s"
  "request_counter (snd (proc_id_to_addr p s)) = request_counter s"
  "request_counter (snd (forward_request data s)) = request_counter s"
  "request_counter (snd (collect_requests s)) = request_counter s"
  "request_counter (snd (on_manager m s)) = request_counter s"
  by (auto simp: handle_response_def proc_id_to_addr_def forward_request_def collect_requests_def
      on_manager_def split_beta split: option.split outcome.split)

lemma counter_and_then:
  assumes "request_counter (snd (m s)) = request_counter s"
    and "\<And>x s'. m s = (Ok x, s') \<Longrightarrow> request_counter (snd (f x s')) = request_counter s'"
  shows "request_counter (snd (and_then m f s)) = request_counter s"
proof (cases "m s")
  case (Pair r s')
  with assms show ?thesis by (cases r) auto
qed

lemma counter_deliver: "request_counter (snd (deliver_grants h gs s)) = request_counter s"
proof (induction gs arbitrary: s)
  case Nil
  then show ?case by simp
next
  case (Cons g gs)
  obtain p k t hold where g: "g = (p, k, t, hold)" by (metis prod.exhaust)
  have tail: "request_counter (snd (case handle_response h (Token p) response s' of
            (Err (InvalidToken _), s) \<Rightarrow> deliver_grants h gs s
          | (Err err, s) \<Rightarrow> (Err err, s)
          | (Ok _, s) \<Rightarrow> deliver_grants h gs s
          | (Panic p, s) \<Rightarrow> (Panic p, s)
          | (Exit n, s) \<Rightarrow> (Exit n, s))) = request_counter s'" for response s'
    using counter_unchanged(1) [of h "Token p" response s'] Cons.IH
    by (auto split: prod.split outcome.split RegistryServerError.split)
  show ?case
    unfolding g deliver_grants.simps
    by (rule counter_and_then)
       (auto simp: tail and_then_def proc_id_to_addr_def split: RequestType.split option.split)
qed

lemma counter_handle_message: "request_counter (snd (handle_message h m s)) = request_counter s"
proof -
  have "request_counter (snd (read_response h p k s)) = request_counter s" for p k
    using counter_unchanged(5) [of "read_access (pick h) p k" s]
    by (auto simp: read_response_def and_then_def proc_id_to_addr_def
        split: prod.split outcome.split AccessManagerError.split option.split)
  moreover have "request_counter (snd (write_response p k s)) = request_counter s" for p k
    using counter_unchanged(5) [of "write_access p k" s]
    by (auto simp: write_response_def split: prod.split outcome.split AccessManagerError.split)
  ultimately show ?thesis
    by (auto simp: handle_message_def success_response_def counter_unchanged
        split: Message.split RegistryMessage.split RequestType.split)
qed

text \<open>
  Behind the parser nothing panics, unless the counter of requests is exhausted.
\<close>

lemma after_parse_safe:
  assumes inv: "rs_inv s" and json: "json_total (ser h) (de h)" and cnt: "request_counter s \<noteq> - 1"
  shows "\<not> is_panic (fst (and_then (handle_message h message) (\<lambda>response.
     and_then (handle_response h tok response) (\<lambda>_ s.
       let (requests, s) = collect_requests s in
       and_then (deliver_grants h requests) (\<lambda>_.
       and_then (forward_request data) (\<lambda>_.
       count_request)) s)) s))"
proof -
  have am: "am_inv (access_manager s)"
    using inv by (auto simp: rs_inv_def intro: am_reachable_inv)
  { fix r1 s1 u s2 gs s3 u' s4 u'' s5
    assume s1: "handle_message h message s = (Ok r1, s1)"
      and s2: "handle_response h tok r1 s1 = (Ok u, s2)"
      and s3: "collect_requests s2 = (gs, s3)"
    have fp: "request_footprint s s2"
      using footprint_handle_message [of s h message] footprint_handle_response [of s1 h tok r1] s1 s2
      by (auto intro: footprint_trans)
    then have "am_reachable (access_manager s2)" using rs_inv_footprint [OF inv] by (simp add: rs_inv_def)
    then have "grants_inv (access_manager s2)" by (rule am_reachable_grants)
    with s3 have gs: "list_all grant_ok gs"
      by (auto simp: collect_requests_def collect_granted_def try_iter_def grants_inv_def)
    have c3: "request_counter s3 = request_counter s"
      using counter_handle_message [of h message s] counter_unchanged(1) [of h tok r1 s1]
        counter_unchanged(4) [of s2] s1 s2 s3 by simp
    have "\<not> is_panic (fst (and_then (deliver_grants h gs) (\<lambda>_.
       and_then (forward_request data) (\<lambda>_. count_request)) s3))"
      using counter_deliver [of h gs s3] counter_unchanged(3) [of data] c3 cnt
      by (auto simp: panic_and_then deliver_safe [OF json gs] forward_safe count_safe)
         (metis snd_conv)+
  } note rest = this
  show ?thesis
    using handle_message_safe [OF am, of h message] handle_response_safe [OF json] rest
    by (auto simp: panic_and_then split: prod.split)
qed

lemma handle_request_panics:
  assumes "rs_inv s" and json: "json_total (ser h) (de h)" and "request_counter s \<noteq> - 1"
  shows "is_panic (fst (handle_request h tok data s)) \<longleftrightarrow>
     error_on h \<and> \<not> utf8_valid data \<and> (\<exists>e. de h data = Err e)"
proof (cases "de h data")
  case (Ok m)
  then have "handle_request h tok data s = and_then (handle_message h m) (\<lambda>response.
     and_then (handle_response h tok response) (\<lambda>_ s.
       let (requests, s) = collect_requests s in
       and_then (deliver_grants h requests) (\<lambda>_.
       and_then (forward_request data) (\<lambda>_.
       count_request)) s)) s"
    unfolding handle_request_def and_then_def [of "\<lambda>s. (map_err _ _, s)"]
    by (simp add: parse_logged_def from_slice_def)
  with after_parse_safe [OF assms] Ok show ?thesis by simp
next
  case (Err e)
  then show ?thesis
    unfolding handle_request_def and_then_def [of "\<lambda>s. (map_err _ _, s)"]
    by (simp add: parse_logged_def from_slice_def)
qed (use json_totalD(2) [OF json, of data] in auto)

lemma handle_error_safe: "json_total (ser h) (de h) \<Longrightarrow> \<not> is_panic (fst (handle_error h tok e s))"
  by (simp add: handle_error_def handle_response_safe)

lemma answer_request_panics:
  assumes "rs_inv s" and json: "json_total (ser h) (de h)" and "request_counter s \<noteq> - 1"
  shows "is_panic (fst (answer_request h tok data s)) \<longleftrightarrow>
     error_on h \<and> \<not> utf8_valid data \<and> (\<exists>e. de h data = Err e)"
  unfolding handle_request_panics [OF assms, of tok data, symmetric]
  by (auto simp: answer_request_def handle_error_safe [OF json] split: prod.split outcome.split)

text \<open>The stream that \<open>handle_data\<close> reads for a token.\<close>

definition stream_of :: "RegistryServer \<Rightarrow> Token \<Rightarrow> TcpStream option" where
  "stream_of s tok = (if tok = backup_token s then backup_stream s else token_stream_map s tok)"

lemma token_id_eq [simp]: "token_id a = token_id b \<longleftrightarrow> a = b"
  by (auto simp: Token.expand)

lemma handle_data_panics:
  assumes inv: "rs_inv s" and json: "json_total (ser h) (de h)" and cnt: "request_counter s \<noteq> - 1"
  shows "is_panic (fst (handle_data h tok s)) \<longleftrightarrow>
     (case stream_of s tok of
        None \<Rightarrow> True
      | Some stream \<Rightarrow> tok \<noteq> backup_token s \<and>
          (\<exists>data. fst (stream_read 256 stream) = Ok data \<and> data \<noteq> [] \<and>
             error_on h \<and> \<not> utf8_valid data \<and> (\<exists>e. de h data = Err e)))"
proof (cases "stream_of s tok")
  case None
  then show ?thesis by (simp add: handle_data_def stream_of_def)
next
  case (Some st)
  obtain r st' where rd: "stream_read 256 st = (r, st')" by fastforce
  have r: "(\<exists>bs. r = Ok bs) \<or> (\<exists>e. r = Err e)" using stream_read_outcome [of 256 st] rd by simp
  show ?thesis
  proof (cases "tok = backup_token s")
    case True
    with Some rd r show ?thesis
      by (auto simp: handle_data_def stream_of_def Let_def split: if_splits)
  next
    case False
    let ?s = "s\<lparr>token_stream_map := (token_stream_map s)(tok \<mapsto> st')\<rparr>"
    have "request_footprint s ?s"
      using False Some by (auto simp: stream_of_def intro: footprint_stream)
    then have "rs_inv ?s" by (rule rs_inv_footprint [OF inv])
    from answer_request_panics [OF this json, of tok] cnt False Some rd r show ?thesis
      by (auto simp: handle_data_def stream_of_def Let_def split: if_splits)
  qed
qed

section \<open>Connections that succeed\<close>

text \<open>
  No failure of the network ahead: registrations succeed, writes to the backup succeed, and the
  connection of the primary registry, if one is expected, has happened.
\<close>

definition clean :: "RegistryServer \<Rightarrow> bool" where
  "clean s \<longleftrightarrow> register_plan (poll s) = [] \<and> (\<forall>b. backup_stream s = Some b \<longrightarrow> write_plan b = []) \<and>
     \<not> (backup_addr s = None \<and> first_connection s)"

definition writes_all :: "json_writer \<Rightarrow> bool" where
  "writes_all wr \<longleftrightarrow> (\<forall>m. \<exists>bs. wr m = Ok bs)"

lemma writes_all_to_vec: "writes_all wr \<Longrightarrow> \<exists>bs. to_vec wr m = Ok bs"
  unfolding writes_all_def to_vec_def by (metis map_ok.simps(1))

text \<open>What a connection that succeeds does: the next number, its stream and address.\<close>

definition connected :: "SocketAddr \<Rightarrow> RegistryServer \<Rightarrow> RegistryServer \<Rightarrow> bool" where
  "connected a s s' \<longleftrightarrow>
     id_counter s' = id_counter s + 1 \<and>
     token_addr_map s' = (token_addr_map s)(Token (id_counter s + 1) \<mapsto> a) \<and>
     dom (token_stream_map s') = insert (Token (id_counter s + 1)) (dom (token_stream_map s)) \<and>
     access_manager s' = access_manager s \<and> backup_addr s' = backup_addr s \<and>
     (backup_stream s' = None \<longleftrightarrow> backup_stream s = None) \<and>
     request_counter s' = request_counter s \<and> first_connection s' = first_connection s \<and>
     backup_token s' = backup_token s"

lemma connect_clean:
  assumes "clean s" and "write_plan st = []" and "writes_all (ser h)" and "id_counter s \<noteq> - 1"
  shows "\<exists>s'. handle_connection h st a s = (Ok (), s') \<and> clean s' \<and> connected a s s'"
proof -
  let ?n = "id_counter s + 1"
  obtain d1 d2 where d: "to_vec (ser h) (registry_connection ?n) = Ok d1"
    "to_vec (ser h) (registry_connection_established ?n) = Ok d2"
    using writes_all_to_vec [OF assms(3)] by metis
  show ?thesis
    using assms(1,2,4) d
    by (cases "backup_stream s")
       (auto simp: handle_connection_eq clean_def connected_def greet_def and_then_def
         register_def poll_register_def stream_write_all_def forward_request_def Let_def)
qed

lemma connects_clean:
  assumes "clean s" and "\<forall>c \<in> set cs. write_plan (fst c) = []" and "writes_all (ser h)"
    and "unat (id_counter s) + length cs < 2 ^ 64"
  shows "\<exists>s'. accept_loop h (map Inr cs) s = (Ok (), s') \<and> clean s' \<and>
     id_counter s' = id_counter s + of_nat (length cs) \<and>
     (\<forall>i < length cs. token_addr_map s' (Token (id_counter s + 1 + of_nat i)) = Some (snd (cs ! i))) \<and>
     (\<forall>tok \<le> Token (id_counter s). token_addr_map s' tok = token_addr_map s tok) \<and>
     access_manager s' = access_manager s \<and> backup_addr s' = backup_addr s \<and>
     first_connection s' = first_connection s"
  using assms
proof (induction cs arbitrary: s)
  case Nil
  then show ?case by simp
next
  case (Cons c cs)
  obtain st a where c: "c = (st, a)" by (cases c)
  have "unat (- 1 :: 64 word) = 2 ^ 64 - 1" by (simp add: unsigned_minus_1_eq_mask mask_eq_exp_minus_1)
  then have small: "id_counter s \<noteq> - 1"
    using Cons.prems(4) by auto
  obtain s1 where s1: "handle_connection h st a s = (Ok (), s1)" and clean1: "clean s1"
    and conn: "connected a s s1"
    using connect_clean [OF Cons.prems(1) _ Cons.prems(3) small, of st a] Cons.prems(2) c by auto
  have id1: "id_counter s1 = id_counter s + 1" using conn by (simp add: connected_def)
  have un1: "unat (id_counter s1) = Suc (unat (id_counter s))"
    using unat_succ [OF small] id1 by simp
  have bound1: "unat (id_counter s1) + length cs < 2 ^ 64" using Cons.prems(4) un1 by simp
  have ws: "\<forall>c\<in>set cs. write_plan (fst c) = []" using Cons.prems(2) by simp
  obtain s2 where s2: "accept_loop h (map Inr cs) s1 = (Ok (), s2)" and clean2: "clean s2"
    and id2: "id_counter s2 = id_counter s1 + of_nat (length cs)"
    and new2: "\<forall>i < length cs. token_addr_map s2 (Token (id_counter s1 + 1 + of_nat i)) = Some (snd (cs ! i))"
    and old2: "\<forall>tok \<le> Token (id_counter s1). token_addr_map s2 tok = token_addr_map s1 tok"
    and rest2: "access_manager s2 = access_manager s1 \<and> backup_addr s2 = backup_addr s1 \<and>
      first_connection s2 = first_connection s1"
    using Cons.IH [OF clean1 ws Cons.prems(3) bound1] by blast
  have less: "id_counter s < id_counter s1" using succ_greater [OF small] id1 by simp
  have "token_addr_map s2 (Token (id_counter s1)) = Some a"
    using old2 conn id1 by (simp add: connected_def)
  then have new: "\<forall>i < length (c # cs).
      token_addr_map s2 (Token (id_counter s + 1 + of_nat i)) = Some (snd ((c # cs) ! i))"
    using new2 id1 c by (auto simp: nth_Cons less_Suc_eq_0_disj add.assoc split: nat.split)
  have old: "\<forall>tok \<le> Token (id_counter s). token_addr_map s2 tok = token_addr_map s tok"
  proof (intro allI impI)
    fix tok
    assume le: "tok \<le> Token (id_counter s)"
    with less have "tok \<le> Token (id_counter s1)" "tok \<noteq> Token (id_counter s1)"
      by (auto simp: less_eq_Token_def)
    with old2 conn id1 show "token_addr_map s2 tok = token_addr_map s tok"
      by (simp add: connected_def)
  qed
  show ?case
    using s1 s2 clean2 id1 id2 new old rest2 conn c
    by (simp add: connected_def add.assoc)
qed

section \<open>The request counter of a primary server\<close>

text \<open>
  A primary server that has not handled a request: a step leaves the counter at zero, or it ends
  the process.
\<close>

definition fresh_primary :: "RegistryServer \<Rightarrow> bool" where
  "fresh_primary s \<longleftrightarrow> backup_stream s \<noteq> None \<and> request_counter s = 0"

definition zero_or_exit :: "(RegistryServerError, 'a) outcome \<times> RegistryServer \<Rightarrow> bool" where
  "zero_or_exit x \<longleftrightarrow> fresh_primary (snd x) \<or> fst x = Exit 0"

lemma fresh_footprint:
  "request_footprint s s' \<Longrightarrow> request_counter s' = request_counter s \<Longrightarrow>
     fresh_primary s' = fresh_primary s"
  by (auto simp: fresh_primary_def request_footprint_def)

lemma zero_and_then:
  assumes "fresh_primary (snd (m s))"
    and "\<And>x s'. m s = (Ok x, s') \<Longrightarrow> fresh_primary s' \<Longrightarrow> zero_or_exit (f x s')"
  shows "zero_or_exit (and_then m f s)"
proof (cases "m s")
  case (Pair r s')
  with assms show ?thesis by (cases r) (auto simp: zero_or_exit_def)
qed

lemma zero_count: "fresh_primary s \<Longrightarrow> zero_or_exit (count_request s)"
  by (simp add: zero_or_exit_def count_request_def checked_succ_def fresh_primary_def Let_def)

lemma fresh_steps:
  assumes "fresh_primary s"
  shows "fresh_primary (snd (handle_message h m s))"
    and "fresh_primary (snd (handle_response h tok rsp s))"
    and "fresh_primary (snd (collect_requests s))"
    and "fresh_primary (snd (deliver_grants h gs s))"
    and "fresh_primary (snd (forward_request data s))"
  using assms
    fresh_footprint [OF footprint_handle_message counter_handle_message, of h m s]
    fresh_footprint [OF footprint_handle_response counter_unchanged(1), of h tok rsp s]
    fresh_footprint [OF footprint_collect counter_unchanged(4), of s]
    fresh_footprint [OF footprint_deliver counter_deliver, of h gs s]
    fresh_footprint [OF footprint_forward counter_unchanged(3), of data s]
  by simp_all

lemma zero_handle_request:
  assumes "fresh_primary s"
  shows "zero_or_exit (handle_request h tok data s)"
  unfolding handle_request_def
proof (rule zero_and_then)
  show "fresh_primary (snd (map_err SerializationError (parse_logged h data), s))"
    using assms by simp
  fix m s1
  assume "fresh_primary s1"
  then show "zero_or_exit (and_then (handle_message h m) (\<lambda>response.
     and_then (handle_response h tok response) (\<lambda>_ s.
       let (requests, s) = collect_requests s in
       and_then (deliver_grants h requests) (\<lambda>_.
       and_then (forward_request data) (\<lambda>_. count_request)) s)) s1)"
  proof (intro zero_and_then fresh_steps)
    fix rsp s2 x s3
    assume s3: "fresh_primary s3"
    obtain gs s4 where c: "collect_requests s3 = (gs, s4)" by fastforce
    have "fresh_primary s4" using fresh_steps(3) [OF s3] c by simp
    then have "zero_or_exit (and_then (deliver_grants h gs) (\<lambda>_.
       and_then (forward_request data) (\<lambda>_. count_request)) s4)"
      by (intro zero_and_then fresh_steps zero_count)
    with c show "zero_or_exit (let (requests, s) = collect_requests s3 in
       and_then (deliver_grants h requests) (\<lambda>_.
       and_then (forward_request data) (\<lambda>_. count_request)) s)"
      by simp
  qed
qed

lemma zero_answer:
  assumes "fresh_primary s"
  shows "zero_or_exit (answer_request h tok data s)"
  using zero_handle_request [OF assms, of h tok data] fresh_steps(2)
  by (auto simp: answer_request_def zero_or_exit_def handle_error_def
      split: prod.split outcome.split)

lemma fresh_remove: "fresh_primary (remove_client tok s) = fresh_primary s"
  by (simp add: fresh_primary_def remove_client_def)

lemma zero_handle_data:
  assumes "fresh_primary s"
  shows "zero_or_exit (handle_data h tok s)"
proof -
  have st: "fresh_primary (s\<lparr>token_stream_map := m\<rparr>)" for m
    using assms by (simp add: fresh_primary_def)
  have bk: "fresh_primary (s\<lparr>backup_stream := Some b\<rparr>)" for b
    using assms by (simp add: fresh_primary_def)
  show ?thesis
    unfolding handle_data_def Let_def
    using assms st bk zero_answer [OF st]
    by (auto simp: zero_or_exit_def fresh_remove
        split: option.split outcome.split prod.split)
qed

lemma fresh_handle_connection:
  assumes "fresh_primary s"
  shows "fresh_primary (snd (handle_connection h st a s))"
  using assms
  by (auto simp: handle_connection_eq greet_def and_then_def register_def fresh_primary_def
      forward_request_def Let_def
      split: prod.split outcome.split option.split)

lemma fresh_accept_loop:
  "fresh_primary s \<Longrightarrow> fresh_primary (snd (accept_loop h accepts s))"
proof (induction h accepts s rule: accept_loop.induct)
  case (2 h st a rest s)
  obtain r s' where conn: "handle_connection h st a s = (r, s')" by fastforce
  with fresh_handle_connection [OF 2(2), of h st a] have "fresh_primary s'" by simp
  with 2(1) [of s'] conn show ?case by (cases r) auto
qed simp_all

lemma fresh_serve_event:
  assumes "fresh_primary s" and "serve_event h e s = (Ok True, s')"
  shows "fresh_primary s'"
proof (cases e)
  case (PollEvent tok readable accepts choice)
  let ?h = "h\<lparr>pick := choice\<rparr>"
  show ?thesis
    using assms(2) fresh_accept_loop [OF assms(1), of ?h accepts]
      zero_handle_data [OF assms(1), of ?h tok] assms(1) PollEvent
    by (auto simp: Let_def and_then_def zero_or_exit_def
        split: if_splits prod.splits outcome.splits RegistryServerError.splits)
qed

text \<open>Whether a server has a backup never changes.\<close>

lemma backup_handle_data: "backup_addr (snd (handle_data h tok s)) = backup_addr s"
proof -
  obtain s' where "request_footprint s s'"
    and "snd (handle_data h tok s) = s' \<or> snd (handle_data h tok s) = remove_client tok s'"
    using handle_data_effect by blast
  then show ?thesis by (auto simp: request_footprint_def remove_client_def)
qed

lemma backup_handle_connection: "backup_addr (snd (handle_connection h st a s)) = backup_addr s"
  by (auto simp: handle_connection_eq greet_def and_then_def register_def
      forward_request_def Let_def split: prod.split outcome.split option.split)

lemma backup_accept_loop: "backup_addr (snd (accept_loop h accepts s)) = backup_addr s"
proof (induction h accepts s rule: accept_loop.induct)
  case (2 h st a rest s)
  obtain r s' where conn: "handle_connection h st a s = (r, s')" by fastforce
  with backup_handle_connection [of h st a s] have "backup_addr s' = backup_addr s" by simp
  with 2(1) [of s'] conn show ?case by (cases r) auto
qed simp_all

lemma backup_serve_event:
  assumes "serve_event h e s = (r, s')"
  shows "backup_addr s' = backup_addr s"
proof (cases e)
  case (PollEvent tok readable accepts choice)
  let ?h = "h\<lparr>pick := choice\<rparr>"
  show ?thesis
    using assms backup_accept_loop [of ?h accepts s] backup_handle_data [of ?h tok s] PollEvent
    by (auto simp: Let_def and_then_def
        split: if_splits prod.splits outcome.splits RegistryServerError.splits)
qed

lemma new_server_counter:
  assumes "new_registry_server connect new_poll port secondary = Ok s"
  shows "request_counter s = 0"
  using assms
  by (cases secondary) (auto simp: new_registry_server_def Let_def
      split: outcome.splits elim!: map_ok.elims map_err.elims)

lemma rs_reachable_fresh: "rs_reachable s \<Longrightarrow> backup_stream s \<noteq> None \<Longrightarrow> fresh_primary s"
proof (induction rule: rs_reachable.induct)
  case (start connect new_poll port secondary s)
  then show ?case by (simp add: fresh_primary_def new_server_counter)
next
  case (event s h e s')
  have "rs_inv s" "rs_inv s'"
    using event.hyps rs_reachable_inv rs_reachable.event by blast+
  then have "backup_stream s \<noteq> None"
    using event.prems backup_serve_event [OF event.hyps(2)] by (auto simp: rs_inv_def)
  then have "fresh_primary s" by (rule event.IH)
  then show ?case using event.hyps(2) by (rule fresh_serve_event)
qed

end
