(* ===== verification/Registry_Requests.thy ===== *)
theory Registry_Requests
  imports Registry_Invariant Fair_Lock
begin

text \<open>
  What one request does, seen from outside: its effect on the locks, its answer as the abstract
  lock determines it, and the delivery of the grants to the waiting clients.
\<close>

section \<open>A request is one call of the access manager\<close>

lemma on_manager_eq:
  "on_manager m s = (fst (m (access_manager s)), s\<lparr>access_manager := snd (m (access_manager s))\<rparr>)"
  by (simp add: on_manager_def split_beta)

lemma access_manager_update_idem [simp]: "s\<lparr>access_manager := access_manager s\<rparr> = s"
  by simp

lemma success_response_eq:
  "success_response m k s =
     (map_err AccessManager (map_ok (\<lambda>_. Success k) (fst (m (access_manager s)))),
      s\<lparr>access_manager := snd (m (access_manager s))\<rparr>)"
  by (simp add: success_response_def on_manager_eq)

lemma read_response_state:
  "snd (read_response h p k s) =
     s\<lparr>access_manager := snd (read_access (pick h) p k (access_manager s))\<rparr>"
  by (auto simp: read_response_def on_manager_eq and_then_def proc_id_to_addr_def
      split: outcome.split AccessManagerError.split option.split)

lemma write_response_state:
  "snd (write_response p k s) =
     s\<lparr>access_manager := snd (write_access p k (access_manager s))\<rparr>"
  by (auto simp: write_response_def on_manager_eq split: outcome.split AccessManagerError.split)

lemma handle_message_state:
  "snd (handle_message h (Registry (Request p t k)) s) =
     s\<lparr>access_manager := snd (am_step (pick h, Call p t k) (access_manager s))\<rparr>"
  by (cases t)
     (simp_all add: handle_message_def success_response_eq read_response_state write_response_state)

text \<open>Every message but a request leaves the server as it is.\<close>

lemma handle_message_other:
  assumes "\<nexists>p t k. m = Registry (Request p t k)"
  shows "snd (handle_message h m s) = s"
proof (cases m)
  case (Registry r)
  with assms show ?thesis by (cases r) (auto simp: handle_message_def)
next
  case (Data d)
  then show ?thesis by (simp add: handle_message_def)
qed

section \<open>The locks after a request\<close>

text \<open>The new key states depend on the old ones and the call alone.\<close>

lemma step_keys:
  assumes "am_inv am" and "am_inv am'" and "key_states am = key_states am'"
  shows "key_states (snd (am_step (pk, Call p t k) am)) =
     key_states (snd (am_step (pk', Call p t k) am'))"
  by (cases t)
     (use assms in \<open>simp_all add: create_eq delete_eq read_access_eq write_access_eq release_eq
        put_key_state_def split: option.split\<close>)

lemma handle_message_keys:
  assumes "am_inv (access_manager s)" and "am_inv (access_manager s')"
    and "key_states (access_manager s) = key_states (access_manager s')"
  shows "key_states (access_manager (snd (handle_message h m s))) =
     key_states (access_manager (snd (handle_message h' m s')))"
proof (cases "\<exists>p t k. m = Registry (Request p t k)")
  case True
  then obtain p t k where "m = Registry (Request p t k)" by blast
  then show ?thesis using step_keys [OF assms] by (simp add: handle_message_state)
qed (simp add: handle_message_other assms(3))

text \<open>No step behind \<open>handle_message\<close> touches the key states.\<close>

definition same_keys :: "RegistryServer \<Rightarrow> RegistryServer \<Rightarrow> bool" where
  "same_keys s s' \<longleftrightarrow> key_states (access_manager s') = key_states (access_manager s)"

lemma same_keys_refl [simp]: "same_keys s s"
  by (simp add: same_keys_def)

lemma same_keys_and_then:
  assumes "same_keys s (snd (m s))" and "\<And>x s'. m s = (Ok x, s') \<Longrightarrow> same_keys s' (snd (f x s'))"
  shows "same_keys s (snd (and_then m f s))"
proof (cases "m s")
  case (Pair r s')
  with assms show ?thesis by (cases r) (auto simp: same_keys_def)
qed

lemma same_keys_response: "same_keys s (snd (handle_response h tok r s))"
  by (auto simp: same_keys_def handle_response_def split_beta split: option.split outcome.split)

lemma same_keys_steps:
  "same_keys s (snd (collect_requests s))"
  "same_keys s (snd (forward_request data s))"
  "same_keys s (snd (count_request s))"
  by (auto simp: same_keys_def collect_requests_def collect_granted_def forward_request_def
      count_request_def checked_succ_def Let_def split_beta split: option.split)

lemma same_keys_deliver: "same_keys s (snd (deliver_grants h gs s))"
proof (induction gs arbitrary: s)
  case Nil
  then show ?case by simp
next
  case (Cons g gs)
  obtain p k t hold where g: "g = (p, k, t, hold)" by (metis prod.exhaust)
  have tail: "same_keys s' (snd (case handle_response h (Token p) response s' of
            (Err (InvalidToken _), s) \<Rightarrow> deliver_grants h gs s
          | (Err err, s) \<Rightarrow> (Err err, s)
          | (Ok _, s) \<Rightarrow> deliver_grants h gs s
          | (Panic p, s) \<Rightarrow> (Panic p, s)
          | (Exit n, s) \<Rightarrow> (Exit n, s)))" for response s'
    using same_keys_response [of s' h "Token p" response] Cons.IH
    by (auto simp: same_keys_def split: prod.split outcome.split RegistryServerError.split)
  show ?case
    unfolding g deliver_grants.simps
    by (rule same_keys_and_then)
       (auto simp: tail and_then_def proc_id_to_addr_def split: RequestType.split option.split)
qed

text \<open>\<open>handle_request\<close> behind the parser.\<close>

definition after_parse :: "host \<Rightarrow> Token \<Rightarrow> byte list \<Rightarrow> Message \<Rightarrow> unit rs_action" where
  "after_parse h tok data message =
     and_then (handle_message h message) (\<lambda>response.
     and_then (handle_response h tok response) (\<lambda>_ s.
       let (requests, s) = collect_requests s in
       and_then (deliver_grants h requests) (\<lambda>_.
       and_then (forward_request data) (\<lambda>_.
       count_request)) s))"

lemma handle_request_parse:
  "handle_request h tok data s =
     (case parse_logged h data of
        Ok m \<Rightarrow> after_parse h tok data m s
      | Err e \<Rightarrow> (Err (SerializationError e), s)
      | Panic p \<Rightarrow> (Panic p, s)
      | Exit n \<Rightarrow> (Exit n, s))"
  unfolding handle_request_def after_parse_def and_then_def [of "\<lambda>s. (map_err _ _, s)"]
  by (simp split: outcome.split)

lemma parse_logged_Ok: "parse_logged h data = Ok m \<longleftrightarrow> de h data = Ok m"
  by (cases "de h data") (simp_all add: parse_logged_def from_slice_def)

lemma after_parse_keys:
  "same_keys (snd (handle_message h m s)) (snd (after_parse h tok data m s))"
proof (cases "handle_message h m s")
  case (Pair r s1)
  have "same_keys s1 (snd (and_then (handle_response h tok rsp) (\<lambda>_ s.
       let (requests, s) = collect_requests s in
       and_then (deliver_grants h requests) (\<lambda>_.
       and_then (forward_request data) (\<lambda>_.
       count_request)) s) s1))" for rsp
  proof (rule same_keys_and_then [OF same_keys_response])
    fix s2 :: RegistryServer
    obtain gs s3 where c: "collect_requests s2 = (gs, s3)" by fastforce
    have "same_keys s3 (snd (and_then (deliver_grants h gs) (\<lambda>_.
        and_then (forward_request data) (\<lambda>_. count_request)) s3))"
      by (intro same_keys_and_then same_keys_deliver same_keys_steps)
    with same_keys_steps(1) [of s2] c
    show "same_keys s2 (snd (let (requests, s) = collect_requests s2 in
        and_then (deliver_grants h requests) (\<lambda>_.
        and_then (forward_request data) (\<lambda>_. count_request)) s))"
      by (simp add: same_keys_def)
  qed
  with Pair show ?thesis by (cases r) (simp_all add: after_parse_def)
qed

section \<open>The answer the abstract lock determines\<close>

text \<open>
  The answer to a request: for a granted read the address of a process that now shares the lock,
  if the registry knows one.
\<close>

definition answers ::
  "(Token \<rightharpoonup> SocketAddr) \<Rightarrow> RequestType \<Rightarrow> ProcId \<Rightarrow> KeyId \<Rightarrow> verdict \<Rightarrow> lock_table \<Rightarrow>
     (RegistryServerError, RegistryResponse) outcome \<Rightarrow> bool"
where
  "answers addrs t p k v T r =
     (case v of
        Granted \<Rightarrow>
          if t = Read then
            (\<exists>R q holder_id. T k = Some (Shared R, q) \<and> p \<in> R \<and> holder_id \<in> R \<and>
               r = (case addrs (Token holder_id) of
                      Some a \<Rightarrow> Ok (Holder k a)
                    | None \<Rightarrow> Err (UnknownHolder (Token holder_id))))
          else r = Ok (Success k)
      | Queued \<Rightarrow> r = Ok (Wait k)
      | Done \<Rightarrow> r = Ok (Success k)
      | NoKey \<Rightarrow> r = Err (AccessManager (KeyNotFound k))
      | KeyTaken \<Rightarrow> r = Err (AccessManager (KeyExists k))
      | InUse \<Rightarrow> r = Err (AccessManager KeyAccessed)
      | NotHolder \<Rightarrow> r = Err (AccessManager (ReleaseAccess p k)))"

lemma read_answer:
  assumes "am_inv (access_manager s)" and "hash_iter (pick h)"
  shows "answers (token_addr_map s) Read p k
     (fst (spec_step p Read k (abs_table (access_manager s))))
     (snd (snd (spec_step p Read k (abs_table (access_manager s)))))
     (fst (read_response h p k s))"
proof (cases "key_states (access_manager s) k")
  case None
  then show ?thesis
    by (simp add: read_response_def on_manager_eq read_access_eq answers_def abs_table_def)
next
  case (Some ks)
  then have ks: "ks_inv ks" using assms(1) by (auto dest: am_invD)
  let ?busy = "writer ks \<noteq> None \<or> (\<exists>w rest. pending_request ks = (w, Write) # rest)"
  have T: "abs_table (access_manager s) k = Some (abs_lock ks)" using Some by (simp add: abs_table_def)
  show ?thesis
  proof (cases ?busy)
    case True
    with Some T acquire_shared [OF ks, of p] show ?thesis
      by (auto simp: read_response_def on_manager_eq read_access_eq answers_def)
  next
    case False
    let ?h = "holder (pick h) (register_reader p ks)"
    have "writer ks = None" using False by simp
    moreover have "pick h (insert p (readers ks)) \<in> insert p (readers ks)"
      by (rule assms(2) [unfolded hash_iter_def, rule_format, OF insert_not_empty])
    ultimately have hold: "?h \<in> insert p (readers ks)"
      by (simp add: holder_def register_reader_def)
    have lock: "abs_lock (register_reader p ks) =
        (Shared (insert p (readers ks)), map abs_request (pending_request ks))"
      using \<open>writer ks = None\<close> by (simp add: abs_lock_def register_reader_def)
    have "fst (read_response h p k s) =
        (case token_addr_map s (Token ?h) of
           Some a \<Rightarrow> Ok (Holder k a) | None \<Rightarrow> Err (UnknownHolder (Token ?h)))"
      using Some False
      by (simp add: read_response_def on_manager_eq read_access_eq and_then_def
          proc_id_to_addr_def split: option.split)
    with T acquire_shared [OF ks, of p] False lock hold show ?thesis
      by (auto simp: answers_def)
  qed
qed

lemma success_answer:
  assumes "am_inv (access_manager s)" and "t \<noteq> Read" "t \<noteq> Write"
  shows "answers (token_addr_map s) t p k
     (fst (spec_step p t k (abs_table (access_manager s)))) T
     (fst (handle_message h (Registry (Request p t k)) s))"
proof (cases "key_states (access_manager s) k")
  case None
  with assms show ?thesis
    by (cases t) (simp_all add: handle_message_def success_response_eq create_eq delete_eq release_eq
        answers_def abs_table_def)
next
  case (Some ks)
  then have ks: "ks_inv ks" using assms(1) by (auto dest: am_invD)
  obtain l q where lq: "abs_lock ks = (l, q)" by fastforce
  with abs_lock_Free [OF ks] have "l = Free \<longleftrightarrow> idle ks" by simp
  moreover have "holds p l \<longleftrightarrow> drop_holder p ks \<noteq> None"
    using holds_drop_holder [OF ks, of p] lq by simp
  ultimately show ?thesis
    using assms Some lq
    by (cases t) (auto simp: handle_message_def success_response_eq create_eq delete_eq release_eq
        answers_def abs_table_def split_beta split: option.split)
qed

lemma write_answer:
  assumes "am_inv (access_manager s)"
  shows "answers (token_addr_map s) Write p k
     (fst (spec_step p Write k (abs_table (access_manager s)))) T
     (fst (write_response p k s))"
proof (cases "key_states (access_manager s) k")
  case None
  then show ?thesis
    by (simp add: write_response_def on_manager_eq write_access_eq answers_def abs_table_def)
next
  case (Some ks)
  then have ks: "ks_inv ks" using assms by (auto dest: am_invD)
  have "abs_table (access_manager s) k = Some (abs_lock ks)" using Some by (simp add: abs_table_def)
  with Some acquire_exclusive [OF ks, of p] show ?thesis
    by (auto simp: write_response_def on_manager_eq write_access_eq answers_def)
qed

lemma request_answer:
  assumes "am_inv (access_manager s)" and "hash_iter (pick h)"
  shows "answers (token_addr_map s) t p k
     (fst (spec_step p t k (abs_table (access_manager s))))
     (snd (snd (spec_step p t k (abs_table (access_manager s)))))
     (fst (handle_message h (Registry (Request p t k)) s))"
  using read_answer [OF assms] write_answer [OF assms(1)] success_answer [OF assms(1), of t]
  by (cases t) (auto simp: handle_message_def)

end
