(* ===== verification/Registry_Delivery.thy ===== *)
theory Registry_Delivery
  imports Registry_Requests
begin

text \<open>
  What the clients receive when the network accepts every write: the answer to the requester and
  the grants to the clients that waited, each on its own stream and in order.
\<close>

section \<open>Writing to a client\<close>

definition sent_to :: "RegistryServer \<Rightarrow> Token \<Rightarrow> byte list" where
  "sent_to s tok = (case token_stream_map s tok of None \<Rightarrow> [] | Some st \<Rightarrow> sent st)"

definition writable :: "RegistryServer \<Rightarrow> bool" where
  "writable s \<longleftrightarrow> (\<forall>tok st. token_stream_map s tok = Some st \<longrightarrow> write_plan st = [])"

text \<open>More bytes arrive at a stream.\<close>

definition arrive :: "Token \<Rightarrow> byte list \<Rightarrow> RegistryServer \<Rightarrow> RegistryServer" where
  "arrive tok data s =
     (case token_stream_map s tok of
        None \<Rightarrow> s
      | Some st \<Rightarrow> s\<lparr>token_stream_map := (token_stream_map s)(tok \<mapsto> st\<lparr>incoming := incoming st @ [Inr data]\<rparr>)\<rparr>)"

text \<open>The bytes of a response.\<close>

definition wire :: "host \<Rightarrow> RegistryResponse \<Rightarrow> byte list" where
  "wire h r = (case to_vec (ser h) (registry_response r) of Ok bs \<Rightarrow> bs | _ \<Rightarrow> [])"

text \<open>The JSON library writes this response.\<close>

definition can_write :: "host \<Rightarrow> RegistryResponse \<Rightarrow> bool" where
  "can_write h r \<longleftrightarrow> is_ok (ser h (registry_response r))"

lemma wire_frame: "can_write h r \<Longrightarrow> to_vec (ser h) (registry_response r) = Ok (wire h r)"
  by (auto simp: can_write_def wire_def to_vec_def is_ok_iff)

text \<open>The state behind a response that was written, if there is a stream for it.\<close>

definition tell :: "host \<Rightarrow> Token \<Rightarrow> RegistryResponse \<Rightarrow> RegistryServer \<Rightarrow> RegistryServer" where
  "tell h tok r s =
     (case token_stream_map s tok of
        None \<Rightarrow> s
      | Some st \<Rightarrow> s\<lparr>token_stream_map := (token_stream_map s)(tok \<mapsto> st\<lparr>sent := sent st @ wire h r\<rparr>)\<rparr>)"

lemma tell_simps [simp]:
  "access_manager (tell h tok r s) = access_manager s"
  "token_addr_map (tell h tok r s) = token_addr_map s"
  "backup_stream (tell h tok r s) = backup_stream s"
  "request_counter (tell h tok r s) = request_counter s"
  "token_stream_map (tell h tok r s) tok' = None \<longleftrightarrow> token_stream_map s tok' = None"
  by (simp_all add: tell_def split: option.split)

lemma writable_tell [simp]: "writable s \<Longrightarrow> writable (tell h tok r s)"
  by (auto simp: writable_def tell_def split: option.split)

lemma sent_tell:
  "sent_to (tell h tok r s) tok' =
     sent_to s tok' @ (if tok = tok' \<and> token_stream_map s tok' \<noteq> None then wire h r else [])"
  by (auto simp: sent_to_def tell_def split: option.split)

lemma respond:
  assumes "writable s" and "can_write h r"
  shows "handle_response h tok r s =
     (if token_stream_map s tok = None then (Err (InvalidToken tok), s) else (Ok (), tell h tok r s))"
proof (cases "token_stream_map s tok")
  case None
  then show ?thesis by (simp add: handle_response_def)
next
  case (Some st)
  with wire_frame [OF assms(2)] assms(1) show ?thesis
    by (simp add: handle_response_def tell_def stream_write_all_def writable_def)
qed

text \<open>What no response changes: the addresses, and what the clients have sent.\<close>

definition told :: "RegistryServer \<Rightarrow> RegistryServer \<Rightarrow> bool" where
  "told s s' \<longleftrightarrow> token_addr_map s' = token_addr_map s \<and> backup_token s' = backup_token s \<and>
     (\<forall>tok. map_option incoming (token_stream_map s' tok) = map_option incoming (token_stream_map s tok)) \<and>
     (writable s \<longrightarrow> writable s')"

lemma told_tell: "told s (tell h tok r s)"
  unfolding told_def using writable_tell [of s h tok r] by (simp add: tell_def split: option.split)

lemma told_trans: "told s s' \<Longrightarrow> told s' s'' \<Longrightarrow> told s s''"
  by (simp add: told_def)

lemma told_update [simp]:
  "told s (s'\<lparr>access_manager := am\<rparr>) = told s s'"
  "told s (s'\<lparr>backup_stream := b\<rparr>) = told s s'"
  "told s (s'\<lparr>request_counter := n\<rparr>) = told s s'"
  "told s s"
  by (simp_all add: told_def writable_def)

section \<open>Delivering the grants\<close>

definition grant_response :: "(Token \<rightharpoonup> SocketAddr) \<Rightarrow> AccessGranted \<Rightarrow> RegistryResponse" where
  "grant_response addrs g =
     (case g of (p, k, t, hold) \<Rightarrow>
        if t = Read then Holder k (the (addrs (Token hold))) else Success k)"

definition tell_grant ::
  "host \<Rightarrow> (Token \<rightharpoonup> SocketAddr) \<Rightarrow> AccessGranted \<Rightarrow> RegistryServer \<Rightarrow> RegistryServer"
where
  "tell_grant h addrs g = tell h (Token (fst g)) (grant_response addrs g)"

definition holder_known :: "(Token \<rightharpoonup> SocketAddr) \<Rightarrow> AccessGranted \<Rightarrow> bool" where
  "holder_known addrs g = (case g of (p, k, t, hold) \<Rightarrow> t = Read \<longrightarrow> addrs (Token hold) \<noteq> None)"

lemma fold_tell_Cons:
  "fold (tell_grant h addrs) (g # gs) s =
     fold (tell_grant h addrs) gs (tell h (Token (fst g)) (grant_response addrs g) s)"
  by (simp add: tell_grant_def)

lemma tell_missing: "token_stream_map s tok = None \<Longrightarrow> tell h tok r s = s"
  by (simp add: tell_def)

lemma deliver:
  assumes "writable s" and "list_all (\<lambda>g. can_write h (grant_response (token_addr_map s) g)) gs"
    and "list_all grant_ok gs" and "list_all (holder_known (token_addr_map s)) gs"
  shows "deliver_grants h gs s = (Ok (), fold (tell_grant h (token_addr_map s)) gs s)"
  using assms
proof (induction gs arbitrary: s)
  case Nil
  then show ?case by simp
next
  case (Cons g gs)
  obtain p k t hold where g: "g = (p, k, t, hold)" by (metis prod.exhaust)
  let ?r = "grant_response (token_addr_map s) g"
  let ?s = "tell h (Token p) ?r s"
  have IH: "deliver_grants h gs ?s = (Ok (), fold (tell_grant h (token_addr_map s)) gs ?s)"
    using Cons.IH [of ?s] Cons.prems by simp
  let ?ask = "\<lambda>s. case t of
        Read \<Rightarrow> and_then (proc_id_to_addr hold) (\<lambda>a s. (Ok (Holder k a), s)) s
      | Write \<Rightarrow> (Ok (Success k), s)
      | _ \<Rightarrow> (Panic Unreachable, s)"
  have ask: "?ask s = (Ok ?r, s)"
    using Cons.prems g
    by (auto simp: grant_ok_def holder_known_def proc_id_to_addr_def grant_response_def)
  show ?case
    unfolding g deliver_grants.simps and_then_Ok [of ?ask, OF ask]
    using respond [OF Cons.prems(1), of h ?r "Token p"] Cons.prems(2) IH g
    by (auto simp: tell_missing fold_tell_Cons simp del: fold.simps)
qed

lemma told_fold_tell: "told s (fold (tell_grant h addrs) gs s)"
proof (induction gs arbitrary: s)
  case (Cons g gs)
  from told_trans [OF told_tell Cons] show ?case by (simp add: fold_tell_Cons del: fold.simps)
qed simp

text \<open>What a run of grants adds to the stream of one client.\<close>

definition notices ::
  "host \<Rightarrow> (Token \<rightharpoonup> SocketAddr) \<Rightarrow> Token \<Rightarrow> AccessGranted list \<Rightarrow> byte list"
where
  "notices h addrs tok gs =
     concat (map (\<lambda>g. wire h (grant_response addrs g)) (filter (\<lambda>g. Token (fst g) = tok) gs))"

lemma fold_tell_grant:
  "access_manager (fold (tell_grant h addrs) gs s) = access_manager s"
  "backup_stream (fold (tell_grant h addrs) gs s) = backup_stream s"
  "request_counter (fold (tell_grant h addrs) gs s) = request_counter s"
  by (induction gs arbitrary: s) (simp_all add: tell_grant_def)

lemma notices_simps:
  "notices h addrs tok [] = []"
  "notices h addrs tok (g # gs) =
     (if Token (fst g) = tok then wire h (grant_response addrs g) else []) @ notices h addrs tok gs"
  by (simp_all add: notices_def)

lemma sent_fold_tell:
  "token_stream_map s tok \<noteq> None \<Longrightarrow>
     sent_to (fold (tell_grant h addrs) gs s) tok = sent_to s tok @ notices h addrs tok gs"
proof (induction gs arbitrary: s)
  case Nil
  then show ?case by (simp add: notices_simps)
next
  case (Cons g gs)
  let ?s = "tell h (Token (fst g)) (grant_response addrs g) s"
  have "token_stream_map ?s tok \<noteq> None" using Cons.prems by simp
  from Cons.IH [OF this] Cons.prems show ?case
    by (simp add: fold_tell_Cons notices_simps sent_tell del: fold.simps)
qed

section \<open>A request served to the end\<close>

text \<open>What the forwarding of a handled request leaves, when the backup accepts it.\<close>

definition backup_gets :: "byte list \<Rightarrow> TcpStream option \<Rightarrow> TcpStream option" where
  "backup_gets data = map_option (\<lambda>st. st\<lparr>sent := sent st @ data\<rparr>)"

lemma forward:
  assumes "\<forall>b. backup_stream s = Some b \<longrightarrow> write_plan b = []"
  shows "forward_request data s = (Ok (), s\<lparr>backup_stream := backup_gets data (backup_stream s)\<rparr>)"
proof (cases "backup_stream s")
  case None
  then have "s\<lparr>backup_stream := None\<rparr> = s" by simp
  with None show ?thesis by (simp add: forward_request_def backup_gets_def)
next
  case (Some b)
  with assms show ?thesis
    by (simp add: forward_request_def backup_gets_def stream_write_all_def)
qed

lemma serve_request:
  assumes inv: "rs_inv s" and fresh: "backup_stream s \<noteq> None \<longrightarrow> request_counter s = 0"
    and wr: "writable s" and json: "can_write h rsp"
      "list_all (\<lambda>g. can_write h (grant_response (token_addr_map s) g)) gs"
    and backup: "\<forall>b. backup_stream s = Some b \<longrightarrow> write_plan b = []"
    and stream: "token_stream_map s tok \<noteq> None" and cnt: "request_counter s \<noteq> - 1"
    and parse: "de h data = Ok m" and msg: "handle_message h m s = (Ok rsp, s1)"
    and gs: "collect_granted (access_manager s1) = (gs, am)"
    and known: "list_all (holder_known (token_addr_map s)) gs"
  shows "\<exists>s'. handle_request h tok data s = (if backup_stream s = None then Ok () else Exit 0, s') \<and>
     access_manager s' = am \<and> backup_stream s' = backup_gets data (backup_stream s) \<and>
     told s s' \<and> request_counter s' = request_counter s + 1 \<and>
     (\<forall>tok'. token_stream_map s tok' \<noteq> None \<longrightarrow> sent_to s' tok' =
        sent_to s tok' @ (if tok' = tok then wire h rsp else []) @
        notices h (token_addr_map s) tok' gs)"
proof -
  define s2 where "s2 = (tell h tok rsp s1)\<lparr>access_manager := am\<rparr>"
  define s3 where "s3 = fold (tell_grant h (token_addr_map s)) gs s2"
  define s4 where "s4 = s3\<lparr>backup_stream := backup_gets data (backup_stream s3)\<rparr>"
  have "\<exists>am'. s1 = s\<lparr>access_manager := am'\<rparr>"
  proof (cases "\<exists>p t k. m = Registry (Request p t k)")
    case True
    then obtain p t k where "m = Registry (Request p t k)" by blast
    with msg handle_message_state [of h p t k s] show ?thesis by auto
  next
    case False
    with msg handle_message_other [OF False, of h s]
    show ?thesis by (intro exI [of _ "access_manager s"]) simp
  qed
  then have same: "token_stream_map s1 = token_stream_map s" "token_addr_map s1 = token_addr_map s"
    "backup_stream s1 = backup_stream s" "request_counter s1 = request_counter s"
    by auto
  have wr1: "writable s1" using wr same by (simp add: writable_def)
  have reach1: "am_reachable (access_manager s1)"
    using rs_inv_footprint [OF inv footprint_handle_message, of h m] msg
    by (simp add: rs_inv_def)
  then have ok: "list_all grant_ok gs"
    using am_reachable_grants [OF reach1] gs
    by (auto simp: grants_inv_def collect_granted_def try_iter_def)
  have rsp: "handle_response h tok rsp s1 = (Ok (), tell h tok rsp s1)"
    using respond [OF wr1 json(1), of tok] stream same by simp
  have coll: "collect_requests (tell h tok rsp s1) = (gs, s2)"
    using gs by (simp add: collect_requests_def s2_def)
  have "writable s2" using writable_tell [OF wr1, of h tok rsp] by (simp add: writable_def s2_def)
  then have del: "deliver_grants h gs s2 = (Ok (), s3)"
    using deliver [of s2 h gs] json(2) ok known same by (simp add: s3_def s2_def)
  have b3: "backup_stream s3 = backup_stream s" "request_counter s3 = request_counter s"
    using same by (simp_all add: s3_def s2_def fold_tell_grant)
  have fwd: "forward_request data s3 = (Ok (), s4)"
    using forward [of s3 data] backup b3 by (simp add: s4_def)
  have count: "count_request s4 = (if backup_stream s = None then Ok () else Exit 0,
      s4\<lparr>request_counter := request_counter s + 1\<rparr>)"
    using cnt b3 fresh
    by (cases "backup_stream s") (auto simp: count_request_def checked_succ_def s4_def backup_gets_def)
  have "handle_request h tok data s = count_request s4"
    using parse msg rsp coll del fwd
    by (simp add: handle_request_parse parse_logged_def from_slice_def after_parse_def)
  moreover have "access_manager s4 = am" by (simp add: s4_def s3_def s2_def fold_tell_grant)
  moreover have "backup_stream s4 = backup_gets data (backup_stream s)" by (simp add: s4_def b3)
  moreover have "sent_to s4 tok' = sent_to s tok' @ (if tok' = tok then wire h rsp else []) @
      notices h (token_addr_map s) tok' gs" if "token_stream_map s tok' \<noteq> None" for tok'
  proof -
    have "sent_to s4 tok' = sent_to s3 tok'" by (simp add: s4_def sent_to_def)
    also have "\<dots> = sent_to s2 tok' @ notices h (token_addr_map s) tok' gs"
      unfolding s3_def by (rule sent_fold_tell) (simp add: s2_def same that)
    also have "sent_to s2 tok' = sent_to (tell h tok rsp s1) tok'" by (simp add: s2_def sent_to_def)
    finally show ?thesis using that same by (simp add: sent_tell) (simp add: sent_to_def same)
  qed
  moreover have "told s s4"
  proof -
    have "told s s1" using \<open>\<exists>am'. s1 = s\<lparr>access_manager := am'\<rparr>\<close> by auto
    then have "told s s2" using told_trans [OF _ told_tell] by (simp add: s2_def)
    then show ?thesis using told_trans [OF _ told_fold_tell] by (simp add: s3_def s4_def)
  qed
  ultimately show ?thesis using count
    by (intro exI [of _ "s4\<lparr>request_counter := request_counter s + 1\<rparr>"]) (simp add: sent_to_def)
qed

end
