(* ===== verification/Registry_Demo.thy ===== *)
theory Registry_Demo
  imports Registry_Delivery
begin

text \<open>
  A concrete host and two concrete servers, reached by connections and requests, on which the
  properties of the registry are instantiated.
\<close>

section \<open>A host\<close>

text \<open>A table of five requests for a parser, and one byte per kind of message for a printer.\<close>

definition demo_requests :: "(byte list \<times> Message) list" where
  "demo_requests =
     [([1], registry_request 0 1 Create), ([2], registry_request 0 2 Write),
      ([3], registry_request 0 3 Read), ([4], registry_request 0 2 Release),
      ([5], registry_request 0 9 Read), ([6], registry_stop)]"

definition demo_ser :: json_writer where
  "demo_ser m =
     Ok (case m of
           Registry (Connection _) \<Rightarrow> [67]
         | Registry (ConnectionEstablished _) \<Rightarrow> [99]
         | Registry (Response (Success _)) \<Rightarrow> [83]
         | Registry (Response (Wait _)) \<Rightarrow> [87]
         | Registry (Response (Holder _ _)) \<Rightarrow> [72]
         | Registry (Response (Error _)) \<Rightarrow> [69]
         | _ \<Rightarrow> [63])"

definition demo_de :: json_reader where
  "demo_de bs =
     (case map_of demo_requests bs of Some m \<Rightarrow> Ok m | None \<Rightarrow> Err ''expected value'')"

definition demo_host :: host where
  "demo_host = \<lparr>ser = demo_ser, de = demo_de, pick = Min, error_on = True, debug_on = False\<rparr>"

lemma demo_host_simps [simp]:
  "ser demo_host = demo_ser" "de demo_host = demo_de" "pick demo_host = Min" "error_on demo_host"
  "demo_host\<lparr>pick := Min\<rparr> = demo_host"
  by (simp_all add: demo_host_def)

lemma demo_writes_all [simp]: "writes_all demo_ser"
  by (simp add: writes_all_def demo_ser_def)

lemma demo_can_write: "can_write demo_host r"
  by (simp add: can_write_def demo_ser_def)

lemma demo_json_total [simp]: "json_total demo_ser demo_de"
  by (simp add: json_total_def demo_ser_def demo_de_def split: option.split)

section \<open>Servers\<close>

text \<open>A peer that sends the given chunks and then stays connected.\<close>

definition peer :: "byte list list \<Rightarrow> TcpStream" where
  "peer chunks =
     \<lparr>incoming = map Inr chunks, at_end = Some (OsError WouldBlock []), write_plan = [], sent = []\<rparr>"

definition demo_poll :: Poll where
  "demo_poll = \<lparr>register_plan = [], registered = []\<rparr>"

definition demo_new :: "SocketAddr option \<Rightarrow> RegistryServer" where
  "demo_new secondary =
     \<lparr>addr = SocketAddrV4 0 4000, backup_addr = secondary,
      backup_stream = map_option (\<lambda>_. peer []) secondary,
      backup_token = Token 999, primary_token = Token 1000,
      first_connection = True, access_manager = new_access_manager,
      token_stream_map = Map.empty, token_addr_map = Map.empty, poll = demo_poll,
      id_counter = 0, request_counter = 0\<rparr>"

lemma demo_new_reachable: "rs_reachable (demo_new secondary)"
  by (rule rs_reachable.start [of "\<lambda>_. Ok (peer [])" "Ok demo_poll" 4000 secondary])
     (simp add: new_registry_server_def demo_new_def split: option.split)

lemma events_reachable:
  assumes "rs_reachable s" and "serve_events h es s = (Ok True, s')"
  shows "rs_reachable s'"
  using assms
proof (induction es arbitrary: s)
  case Nil
  then show ?case by simp
next
  case (Cons e es)
  obtain r s1 where e: "serve_event h e s = (r, s1)" by fastforce
  with Cons.prems(2) have "r = Ok True" and rest: "serve_events h es s1 = (Ok True, s')"
    by (cases r; auto simp: and_then_def split: if_splits)+
  with e have "rs_reachable s1" using rs_reachable.event [OF Cons.prems(1)] by blast
  then show ?case using rest by (rule Cons.IH)
qed

abbreviation demo_addr :: "u16 \<Rightarrow> SocketAddr" where
  "demo_addr port \<equiv> SocketAddrV4 0x7F000001 port"

text \<open>
  A server without a backup: the primary registry and three clients connect, client 1 creates
  key 0, client 2 gets the write access, client 3 waits for a read. Client 1 then sends a byte that
  is not UTF-8, client 2 its release, and client 3 closes.
\<close>

definition demo_accepts :: "(io_error + TcpStream \<times> SocketAddr) list" where
  "demo_accepts =
     [Inr (peer [], demo_addr 1), Inr (peer [[1], [255]], demo_addr 2), Inr (peer [[2], [4]], demo_addr 3),
      Inr ((peer [[3]])\<lparr>at_end := None\<rparr>, demo_addr 4)]"

definition demo_events :: "poll_event list" where
  "demo_events =
     [PollEvent LISTENER True demo_accepts Min, PollEvent (Token 1) True [] Min,
      PollEvent (Token 2) True [] Min, PollEvent (Token 3) True [] Min]"

definition demo_streams :: "Token \<rightharpoonup> TcpStream" where
  "demo_streams =
     [Token 1000 \<mapsto> peer [],
      Token 1 \<mapsto> (peer [[255]])\<lparr>sent := [67, 10, 83, 10]\<rparr>,
      Token 2 \<mapsto> (peer [[4]])\<lparr>sent := [67, 10, 83, 10]\<rparr>,
      Token 3 \<mapsto> (peer [])\<lparr>at_end := None, sent := [67, 10, 87, 10]\<rparr>]"

definition demo_lock :: KeyState where
  "demo_lock = \<lparr>pending_request = [(3, Read)], readers = {}, writer = Some 2, creator = 1\<rparr>"

definition demo_server :: RegistryServer where
  "demo_server =
     (demo_new None)
       \<lparr>first_connection := False,
        access_manager := \<lparr>access_granted = channel_new, key_states = [0 \<mapsto> demo_lock]\<rparr>,
        token_stream_map := demo_streams,
        token_addr_map := [Token 1 \<mapsto> demo_addr 2, Token 2 \<mapsto> demo_addr 3, Token 3 \<mapsto> demo_addr 4],
        poll := \<lparr>register_plan = [], registered = [Token 3, Token 2, Token 1, Token 1000]\<rparr>,
        id_counter := 3, request_counter := 3\<rparr>"

lemmas connection_eval = handle_connection_eq greet_def register_def poll_register_def
  to_vec_def registry_connection_def registry_connection_established_def stream_write_all_def
  forward_request_def demo_ser_def demo_poll_def peer_def

lemmas request_eval = handle_data_def stream_read_def answer_request_def handle_request_def
  parse_logged_def from_slice_def demo_de_def demo_requests_def registry_request_def
  handle_message_def success_response_eq on_manager_eq write_response_def read_response_def
  create_eq write_access_eq read_access_eq put_key_state_def idle_def ks_defs
  handle_response_def registry_response_def to_vec_def demo_ser_def stream_write_all_def
  collect_requests_def collect_granted_def try_iter_def forward_request_def
  count_request_def checked_succ_def new_access_manager_def channel_new_def

definition demo_connected :: RegistryServer where
  "demo_connected =
     (demo_new None)
       \<lparr>first_connection := False,
        token_stream_map :=
          [Token 1000 \<mapsto> peer [],
           Token 1 \<mapsto> (peer [[1], [255]])\<lparr>sent := [67, 10]\<rparr>,
           Token 2 \<mapsto> (peer [[2], [4]])\<lparr>sent := [67, 10]\<rparr>,
           Token 3 \<mapsto> (peer [[3]])\<lparr>at_end := None, sent := [67, 10]\<rparr>],
        token_addr_map := [Token 1 \<mapsto> demo_addr 2, Token 2 \<mapsto> demo_addr 3, Token 3 \<mapsto> demo_addr 4],
        poll := \<lparr>register_plan = [], registered = [Token 3, Token 2, Token 1, Token 1000]\<rparr>,
        id_counter := 3\<rparr>"

lemma demo_accept: "accept_loop demo_host demo_accepts (demo_new None) = (Ok (), demo_connected)"
  by (simp add: demo_accepts_def demo_new_def demo_connected_def connection_eval)

text \<open>The three requests, one at a time.\<close>

definition demo_created :: RegistryServer where
  "demo_created =
     demo_connected
       \<lparr>access_manager := \<lparr>access_granted = channel_new, key_states = [0 \<mapsto> new_key_state 1]\<rparr>,
        token_stream_map := (token_stream_map demo_connected)
          (Token 1 \<mapsto> (peer [[255]])\<lparr>sent := [67, 10, 83, 10]\<rparr>),
        request_counter := 1\<rparr>"

definition demo_written :: RegistryServer where
  "demo_written =
     demo_created
       \<lparr>access_manager := \<lparr>access_granted = channel_new,
          key_states = [0 \<mapsto> (new_key_state 1)\<lparr>writer := Some 2\<rparr>]\<rparr>,
        token_stream_map := (token_stream_map demo_created)
          (Token 2 \<mapsto> (peer [[4]])\<lparr>sent := [67, 10, 83, 10]\<rparr>),
        request_counter := 2\<rparr>"

lemma demo_request_1: "handle_data demo_host (Token 1) demo_connected = (Ok (), demo_created)"
  by (simp add: demo_connected_def demo_created_def demo_new_def peer_def request_eval)

lemma demo_request_2: "handle_data demo_host (Token 2) demo_created = (Ok (), demo_written)"
  by (simp add: demo_connected_def demo_created_def demo_written_def demo_new_def peer_def
      request_eval)

lemma demo_request_3: "handle_data demo_host (Token 3) demo_written = (Ok (), demo_server)"
  by (simp add: demo_connected_def demo_created_def demo_written_def demo_server_def
      demo_streams_def demo_lock_def demo_new_def peer_def request_eval)

lemma demo_run: "serve_events demo_host demo_events (demo_new None) = (Ok True, demo_server)"
  by (simp add: demo_events_def demo_accept demo_request_1 demo_request_2 demo_request_3)

lemma demo_server_reachable: "rs_reachable demo_server"
  using demo_new_reachable demo_run by (rule events_reachable)

lemma demo_connected_reachable: "rs_reachable demo_connected"
proof -
  have "serve_event demo_host (PollEvent LISTENER True demo_accepts Min) (demo_new None) =
      (Ok True, demo_connected)"
    by (simp add: demo_accept)
  then show ?thesis by (rule rs_reachable.event [OF demo_new_reachable])
qed

lemma demo_server_simps [simp]:
  "access_manager demo_server = \<lparr>access_granted = channel_new, key_states = [0 \<mapsto> demo_lock]\<rparr>"
  "token_stream_map demo_server = demo_streams"
  "token_addr_map demo_server =
     [Token 1 \<mapsto> demo_addr 2, Token 2 \<mapsto> demo_addr 3, Token 3 \<mapsto> demo_addr 4]"
  "backup_stream demo_server = None" "backup_addr demo_server = None"
  "backup_token demo_server = Token 999" "primary_token demo_server = Token 1000"
  "request_counter demo_server = 3" "id_counter demo_server = 3"
  "first_connection demo_server = False"
  by (simp_all add: demo_server_def demo_new_def)

lemma demo_server_writable: "writable demo_server"
  by (auto simp: writable_def demo_streams_def peer_def)

text \<open>A server with a backup, and one client that creates key 0.\<close>

definition demo_primary :: RegistryServer where
  "demo_primary =
     (demo_new (Some (demo_addr 9)))
       \<lparr>backup_stream := Some ((peer [])\<lparr>sent := [99, 10]\<rparr>),
        token_stream_map := [Token 1 \<mapsto> (peer [[1]])\<lparr>sent := [67, 10]\<rparr>],
        token_addr_map := [Token 1 \<mapsto> demo_addr 2],
        poll := \<lparr>register_plan = [], registered = [Token 1]\<rparr>,
        id_counter := 1\<rparr>"

lemma demo_primary_reachable: "rs_reachable demo_primary"
proof -
  have "serve_event demo_host (PollEvent LISTENER True [Inr (peer [[1]], demo_addr 2)] Min)
      (demo_new (Some (demo_addr 9))) = (Ok True, demo_primary)"
    by (simp add: demo_new_def demo_primary_def connection_eval)
  then show ?thesis by (rule rs_reachable.event [OF demo_new_reachable])
qed

lemma demo_primary_simps [simp]:
  "access_manager demo_primary = new_access_manager"
  "token_stream_map demo_primary = [Token 1 \<mapsto> (peer [[1]])\<lparr>sent := [67, 10]\<rparr>]"
  "token_addr_map demo_primary = [Token 1 \<mapsto> demo_addr 2]"
  "backup_stream demo_primary = Some ((peer [])\<lparr>sent := [99, 10]\<rparr>)"
  "backup_addr demo_primary = Some (demo_addr 9)"
  "backup_token demo_primary = Token 999"
  "request_counter demo_primary = 0" "id_counter demo_primary = 1"
  by (simp_all add: demo_primary_def demo_new_def)

text \<open>
  Two clients: client 1 creates key 0, client 2 gets the write access and closes its end; or client 1
  closes while client 2 writes, client 3 waits for a read, and client 2 then releases.
\<close>

definition demo_closed :: RegistryServer where
  "demo_closed =
     (demo_new None)
       \<lparr>first_connection := False,
        access_manager := \<lparr>access_granted = channel_new,
          key_states = [0 \<mapsto> (new_key_state 1)\<lparr>writer := Some 2\<rparr>]\<rparr>,
        token_stream_map :=
          [Token 1000 \<mapsto> peer [],
           Token 1 \<mapsto> (peer [])\<lparr>sent := [67, 10, 83, 10]\<rparr>,
           Token 2 \<mapsto> (peer [])\<lparr>at_end := None, sent := [67, 10, 83, 10]\<rparr>],
        token_addr_map := [Token 1 \<mapsto> demo_addr 2, Token 2 \<mapsto> demo_addr 3],
        poll := \<lparr>register_plan = [], registered = [Token 2, Token 1, Token 1000]\<rparr>,
        id_counter := 2, request_counter := 2\<rparr>"

lemma demo_closed_reachable: "rs_reachable demo_closed"
proof -
  have "serve_events demo_host
      [PollEvent LISTENER True
         [Inr (peer [], demo_addr 1), Inr (peer [[1]], demo_addr 2),
          Inr ((peer [[2]])\<lparr>at_end := None\<rparr>, demo_addr 3)] Min,
       PollEvent (Token 1) True [] Min, PollEvent (Token 2) True [] Min] (demo_new None) =
      (Ok True, demo_closed)"
    by (simp add: demo_new_def demo_closed_def connection_eval request_eval)
  then show ?thesis by (rule events_reachable [OF demo_new_reachable])
qed

definition demo_orphan :: RegistryServer where
  "demo_orphan =
     (demo_new None)
       \<lparr>first_connection := False,
        access_manager := \<lparr>access_granted = channel_new, key_states = [0 \<mapsto> demo_lock]\<rparr>,
        token_stream_map :=
          [Token 1000 \<mapsto> peer [],
           Token 2 \<mapsto> (peer [[4]])\<lparr>sent := [67, 10, 83, 10]\<rparr>,
           Token 3 \<mapsto> (peer [])\<lparr>sent := [67, 10, 87, 10]\<rparr>],
        token_addr_map := [Token 2 \<mapsto> demo_addr 3, Token 3 \<mapsto> demo_addr 4],
        poll := \<lparr>register_plan = [], registered = [Token 3, Token 2, Token 1, Token 1000]\<rparr>,
        id_counter := 3, request_counter := 3\<rparr>"

lemma demo_orphan_reachable: "rs_reachable demo_orphan"
proof -
  have "serve_events demo_host
      [PollEvent LISTENER True
         [Inr (peer [], demo_addr 1), Inr ((peer [[1]])\<lparr>at_end := None\<rparr>, demo_addr 2),
          Inr (peer [[2], [4]], demo_addr 3), Inr (peer [[3]], demo_addr 4)] Min,
       PollEvent (Token 1) True [] Min, PollEvent (Token 2) True [] Min,
       PollEvent (Token 3) True [] Min, PollEvent (Token 1) True [] Min] (demo_new None) =
      (Ok True, demo_orphan)"
    by (simp add: demo_new_def demo_orphan_def demo_lock_def remove_client_def connection_eval
        request_eval)
  then show ?thesis by (rule events_reachable [OF demo_new_reachable])
qed

section \<open>A codec from a table\<close>

text \<open>Messages with the bytes that stand for them; a reader that refuses everything else.\<close>

definition table_ser :: "(byte list \<times> Message) list \<Rightarrow> json_writer" where
  "table_ser tab m =
     (case map_of (map prod.swap tab) m of Some bs \<Rightarrow> Ok bs | None \<Rightarrow> Err ''not in the table'')"

definition table_de :: "(byte list \<times> Message) list \<Rightarrow> json_reader" where
  "table_de tab bs =
     (case map_of tab (if last bs = newline then butlast bs else bs) of
        Some m \<Rightarrow> Ok m | None \<Rightarrow> Err ''trailing characters'')"

definition table_host :: "(byte list \<times> Message) list \<Rightarrow> host" where
  "table_host tab =
     \<lparr>ser = table_ser tab, de = table_de tab, pick = Min, error_on = False, debug_on = False\<rparr>"

lemma table_host_simps [simp]:
  "ser (table_host tab) = table_ser tab" "de (table_host tab) = table_de tab"
  "pick (table_host tab) = Min" "\<not> error_on (table_host tab)" "\<not> debug_on (table_host tab)"
  "(table_host tab)\<lparr>pick := Min\<rparr> = table_host tab"
  by (simp_all add: table_host_def)

lemma table_codec:
  assumes "distinct (map fst tab)" and "list_all (\<lambda>x. fst x \<noteq> [] \<and> newline \<notin> set (fst x)) tab"
  shows "json_codec (table_ser tab) (table_de tab)"
proof -
  have "newline \<notin> set bs \<and> table_de tab bs = Ok m \<and> table_de tab (bs @ [newline]) = Ok m"
    if "table_ser tab m = Ok bs" for m bs
  proof -
    from that have "(bs, m) \<in> set tab" by (auto simp: table_ser_def dest!: map_of_SomeD split: option.splits)
    with assms have "map_of tab bs = Some m" "bs \<noteq> []" "newline \<notin> set bs"
      by (auto simp: list_all_iff)
    moreover from this have "last bs \<noteq> newline" using last_in_set by metis
    ultimately show ?thesis by (simp add: table_de_def)
  qed
  then show ?thesis
    by (auto simp: json_codec_def json_total_def table_ser_def table_de_def split: option.split)
qed

end
