(* ===== verification/Registry_Claims.thy ===== *)
theory Registry_Claims
  imports Registry_Demo
begin

text \<open>
  The properties of the registry server, for every server it can become (\<open>rs_reachable\<close>), with
  witnesses on the servers of \<open>Registry_Demo\<close>.
\<close>

section \<open>Locks behind the network\<close>

text \<open>
  C3: The registry answers as the abstract lock does. For every reachable server, every request and
  every admissible iteration order, the new locks are those of the specification \<open>spec_step\<close>, and the
  answer is the one its verdict determines: \<open>Holder\<close> with the address of a process that now shares
  the lock (an error if that process has no address), \<open>Success\<close>, \<open>Wait\<close>, or the error of
  the refusal.
\<close>

theorem request_answers_match_lock:
  assumes "rs_reachable s" and "hash_iter (pick h)"
    and "handle_message h (Registry (Request p t k)) s = (r, s')"
    and "spec_step p t k (abs_table (access_manager s)) = (v, gs, T)"
  shows "abs_table (access_manager s') = T \<and> answers (token_addr_map s) t p k v T r"
proof -
  have inv: "am_inv (access_manager s)"
    using rs_reachable_manager [OF assms(1)] by (rule am_reachable_inv)
  have "access_manager s' = snd (am_step (pick h, Call p t k) (access_manager s))"
    using handle_message_state [of h p t k s] assms(3) by simp
  then have "abs_table (access_manager s') = T"
    using am_refines_call [OF inv, of "pick h" p t k] assms(4)
    by (auto simp: refines_call_def split: prod.splits)
  with request_answer [OF inv assms(2), of t p k] assms(3,4) show ?thesis by simp
qed

theorem request_answers_match_lock_witness:
  "fst (handle_message demo_host (Registry (Request 7 Write 0)) demo_server) = Ok (Wait 0)"
proof -
  have spec: "spec_step 7 Write 0 (abs_table (access_manager demo_server)) =
      (Queued, [], (abs_table (access_manager demo_server))
         (0 \<mapsto> (Exclusive 2, [(3, SharedMode), (7, ExclusiveMode)])))"
    by (simp add: abs_table_def abs_lock_def abs_request_def mode_of_def demo_lock_def)
  from request_answers_match_lock [OF demo_server_reachable _ prod.collapse [symmetric] spec]
  show ?thesis by (simp add: hash_iter_Min answers_def)
qed

text \<open>
  C7: A request is served to the end. If the network accepts every write and the addresses of
  the announced data holders are known, the requester gets the answer, then every client gets the
  grants meant for it, in order and on its own stream, nobody gets anything else, the backup
  gets the bytes of the request, and the announcements are consumed. A server with a backup then
  ends the process.
\<close>

theorem request_served:
  assumes "rs_reachable s" and "writable s" and "can_write h rsp"
    and "list_all (\<lambda>g. can_write h (grant_response (token_addr_map s) g)) gs"
    and "\<forall>b. backup_stream s = Some b \<longrightarrow> write_plan b = []"
    and "token_stream_map s tok \<noteq> None" and "request_counter s \<noteq> - 1"
    and "de h data = Ok m" and "handle_message h m s = (Ok rsp, s1)"
    and "collect_granted (access_manager s1) = (gs, am)"
    and "list_all (holder_known (token_addr_map s)) gs"
  shows "\<exists>s'. handle_request h tok data s = (if backup_stream s = None then Ok () else Exit 0, s') \<and>
     access_manager s' = am \<and> backup_stream s' = backup_gets data (backup_stream s) \<and>
     (\<forall>tok'. token_stream_map s tok' \<noteq> None \<longrightarrow> sent_to s' tok' =
        sent_to s tok' @ (if tok' = tok then wire h rsp else []) @
        notices h (token_addr_map s) tok' gs)"
proof -
  have "backup_stream s \<noteq> None \<longrightarrow> request_counter s = 0"
    using rs_reachable_fresh [OF assms(1)] by (simp add: fresh_primary_def)
  from serve_request [OF rs_reachable_inv [OF assms(1)] this assms(2-11)] show ?thesis by blast
qed

theorem request_served_witness:
  "\<exists>s'. handle_request demo_host (Token 2) [4] demo_server = (Ok (), s') \<and>
     sent_to s' (Token 2) = [67, 10, 83, 10, 83, 10] \<and>
     sent_to s' (Token 3) = [67, 10, 87, 10, 72, 10]"
proof -
  let ?am = "\<lparr>access_granted = channel_new,
     key_states = [0 \<mapsto> demo_lock\<lparr>pending_request := [], readers := {3}, writer := None\<rparr>]\<rparr>"
  have msg: "handle_message demo_host (registry_request 0 2 Release) demo_server =
      (Ok (Success 0), demo_server\<lparr>access_manager := ?am\<lparr>access_granted :=
         channel_new\<lparr>buffer := [(3, 0, Read, 1)]\<rparr>\<rparr>\<rparr>)"
    using rs_reachable_manager [OF demo_server_reachable, THEN am_reachable_inv]
    by (simp add: handle_message_def registry_request_def success_response_eq release_eq demo_lock_def
        drop_holder_def admit_def announce_def is_read_def idle_def channel_new_def)
  have gs: "collect_granted (access_manager (demo_server\<lparr>access_manager := ?am\<lparr>access_granted :=
         channel_new\<lparr>buffer := [(3, 0, Read, 1)]\<rparr>\<rparr>\<rparr>)) = ([(3, 0, Read, 1)], ?am)"
    by (simp add: collect_granted_def try_iter_def channel_new_def)
  have "\<exists>s'. handle_request demo_host (Token 2) [4] demo_server = (Ok (), s') \<and>
     (\<forall>tok'. demo_streams tok' \<noteq> None \<longrightarrow> sent_to s' tok' =
        sent_to demo_server tok' @ (if tok' = Token 2 then wire demo_host (Success 0) else []) @
        notices demo_host (token_addr_map demo_server) tok' [(3, 0, Read, 1)])"
    using request_served [OF demo_server_reachable demo_server_writable _ _ _ _ _ _ msg gs,
        of "Token 2" "[4]"]
    by (auto simp: demo_streams_def demo_de_def demo_requests_def holder_known_def demo_can_write)
  then show ?thesis
    by (auto simp: demo_streams_def sent_to_def wire_def notices_def grant_response_def to_vec_def
        registry_response_def demo_ser_def split: if_splits)
qed

section \<open>Clients\<close>

text \<open>
  C20: Every accepted client gets a number no client has: the counter goes up by one, no client that is
  connected has an address or a stream under the token of the number, and the bytes written to
  the new stream are those of the \<open>Connection\<close> message with this number. The stream the token has in
  the map from now on is the new one; only the client with number 1000 can replace another stream by
  it, that of the primary registry, whose token is \<open>Token 1000\<close>.
\<close>

theorem client_gets_fresh_number:
  assumes "rs_reachable s" and "\<not> (backup_addr s = None \<and> first_connection s)"
    and "handle_connection h st a s = (Ok (), s')"
  shows "id_counter s \<noteq> - 1 \<and> id_counter s' = id_counter s + 1 \<and>
     Token (id_counter s') \<notin> dom (token_addr_map s) \<and>
     (id_counter s' \<noteq> 1000 \<longrightarrow> Token (id_counter s') \<notin> dom (token_stream_map s)) \<and>
     token_addr_map s' = (token_addr_map s)(Token (id_counter s') \<mapsto> a) \<and>
     (\<exists>data st'. to_vec (ser h) (registry_connection (id_counter s')) = Ok data \<and>
        stream_write_all data st = (Ok (), st') \<and>
        token_stream_map s' = (token_stream_map s)(Token (id_counter s') \<mapsto> st'))"
proof -
  have old: "\<forall>tok \<in> dom (token_addr_map s). tok \<le> Token (id_counter s)"
    using rs_reachable_inv [OF assms(1)] by (simp add: rs_inv_def)
  have small: "id_counter s \<noteq> - 1" using assms(2,3) by (auto simp: handle_connection_eq)
  then have "\<not> Token (id_counter s + 1) \<le> Token (id_counter s)"
    using succ_greater [of "id_counter s"] by (simp add: less_eq_Token_def not_le)
  with old have addr: "Token (id_counter s + 1) \<notin> dom (token_addr_map s)" by blast
  moreover have "dom (token_stream_map s) - dom (token_addr_map s) \<subseteq> {Token 1000}"
    using rs_reachable_inv [OF assms(1)] by (auto simp: rs_inv_def)
  with addr have "id_counter s + 1 \<noteq> 1000 \<longrightarrow> Token (id_counter s + 1) \<notin> dom (token_stream_map s)" by blast
  ultimately show ?thesis
    using small assms(2,3)
    by (auto simp: handle_connection_eq greet_def register_def and_then_def forward_request_def
        Let_def split: prod.splits outcome.splits option.splits)
qed

theorem client_gets_fresh_number_witness:
  "\<exists>s'. handle_connection demo_host (peer []) (demo_addr 5) demo_server = (Ok (), s') \<and>
     id_counter s' = 4 \<and> token_stream_map demo_server (Token 4) = None \<and>
     token_addr_map s' (Token 4) = Some (demo_addr 5)"
proof -
  have "fst (handle_connection demo_host (peer []) (demo_addr 5) demo_server) = Ok ()"
    by (simp add: demo_server_def demo_new_def connection_eval)
  then obtain s' where s': "handle_connection demo_host (peer []) (demo_addr 5) demo_server = (Ok (), s')"
    by (metis prod.collapse)
  from client_gets_fresh_number [OF demo_server_reachable _ s'] s' show ?thesis by auto
qed

text \<open>The client with number 1000 takes the place of the primary registry.\<close>

lemma client_1000_replaces_primary:
  assumes "clean s" and "backup_addr s = None" and "backup_stream s = None" and "id_counter s = 999"
    and "write_plan st = []" and "writes_all (ser h)"
    and "token_stream_map s (Token 1000) = Some primary"
  shows "\<exists>s' data. handle_connection h st a s = (Ok (), s') \<and>
     token_stream_map s' (Token 1000) = Some (st\<lparr>sent := sent st @ data\<rparr>) \<and>
     token_addr_map s' (Token 1000) = Some a"
proof -
  obtain d1 d2 where "to_vec (ser h) (registry_connection 1000) = Ok d1"
    "to_vec (ser h) (registry_connection_established 1000) = Ok d2"
    using writes_all_to_vec [OF assms(6)] by metis
  with assms(1-5) show ?thesis
    by (auto simp: handle_connection_eq clean_def greet_def and_then_def
         register_def poll_register_def stream_write_all_def forward_request_def Let_def)
qed

text \<open>
  C34: The 999th client crashes a server without a backup. The number 999 is also the token of
  the backup; when 999 clients have connected, each with success, data from the 999th makes
  \<open>handle_data\<close> unwrap the missing stream of the backup.
\<close>

theorem client_999_crashes_server:
  assumes "rs_reachable s" and "clean s" and "backup_addr s = None" and "id_counter s = 0"
    and "\<forall>c \<in> set cs. write_plan (fst c) = []" and "writes_all (ser h)"
    and "999 \<le> length cs" and "length cs < 2 ^ 64"
  shows "\<exists>s'. accept_loop h (map Inr cs) s = (Ok (), s') \<and> rs_reachable s' \<and>
     token_addr_map s' (Token 999) = Some (snd (cs ! 998)) \<and>
     fst (handle_data h (Token 999) s') = Panic UnwrapNone"
proof -
  have "unat (id_counter s) + length cs < 2 ^ 64" using assms(4,8) by simp
  from connects_clean [OF assms(2,5,6) this] obtain s' where
    acc: "accept_loop h (map Inr cs) s = (Ok (), s')"
    and addrs: "\<forall>i < length cs. token_addr_map s' (Token (id_counter s + 1 + of_nat i)) = Some (snd (cs ! i))"
    and backup: "backup_addr s' = backup_addr s"
    by blast
  have "h\<lparr>pick := pick h\<rparr> = h" by simp
  with acc have "serve_event h (PollEvent LISTENER True (map Inr cs) (pick h)) s = (Ok True, s')"
    by simp
  with assms(1) have reach: "rs_reachable s'" by (rule rs_reachable.event)
  then have "backup_stream s' = None" "backup_token s' = Token 999"
    using rs_reachable_inv backup assms(3) by (auto simp: rs_inv_def)
  then have "fst (handle_data h (Token 999) s') = Panic UnwrapNone" by (simp add: handle_data_def)
  moreover have "token_addr_map s' (Token 999) = Some (snd (cs ! 998))"
    using addrs [rule_format, of 998] assms(4,7) by simp
  ultimately show ?thesis using acc reach by blast
qed

definition demo_lone :: RegistryServer where
  "demo_lone = snd (handle_connection demo_host (peer []) (demo_addr 1) (demo_new None))"

lemma demo_lone_event:
  "serve_event demo_host (PollEvent LISTENER True [Inr (peer [], demo_addr 1)] Min) (demo_new None) =
     (Ok True, demo_lone)"
  by (simp add: demo_lone_def demo_new_def connection_eval)

lemma demo_lone_clean: "clean demo_lone" "backup_addr demo_lone = None" "id_counter demo_lone = 0"
  by (simp_all add: demo_lone_def demo_new_def clean_def connection_eval)

theorem client_999_crashes_server_witness:
  "\<exists>s'. rs_reachable s' \<and> token_addr_map s' (Token 999) = Some (demo_addr 5) \<and>
     fst (handle_data demo_host (Token 999) s') = Panic UnwrapNone"
  using client_999_crashes_server [OF rs_reachable.event [OF demo_new_reachable demo_lone_event]
      demo_lone_clean, of "replicate 999 (peer [], demo_addr 5)" demo_host]
  by (auto simp: peer_def)

section \<open>The end of the server\<close>

text \<open>
  C18: When data on a stream panics. With a JSON library that returns, \<open>handle_data\<close> panics exactly
  if there is no stream for the token, or the bytes read are not a message and not UTF-8 while
  the \<open>error\<close> level is logged: no lock state, no announcement and no failure of the network
  makes it panic.
\<close>

theorem handle_data_panics_exactly:
  assumes "rs_reachable s" and "json_total (ser h) (de h)" and "request_counter s \<noteq> - 1"
  shows "is_panic (fst (handle_data h tok s)) \<longleftrightarrow>
     (case (if tok = backup_token s then backup_stream s else token_stream_map s tok) of
        None \<Rightarrow> True
      | Some stream \<Rightarrow> tok \<noteq> backup_token s \<and>
          (\<exists>data. fst (stream_read 256 stream) = Ok data \<and> data \<noteq> [] \<and>
             error_on h \<and> \<not> utf8_valid data \<and> (\<exists>e. de h data = Err e)))"
  using handle_data_panics [OF rs_reachable_inv [OF assms(1)] assms(2,3), of tok]
  by (simp add: stream_of_def)

theorem handle_data_panics_exactly_witness:
  "is_panic (fst (handle_data demo_host (Token 1) demo_server)) \<and>
   \<not> is_panic (fst (handle_data demo_host (Token 2) demo_server)) \<and>
   is_panic (fst (handle_data demo_host (Token 999) demo_server))"
proof -
  have eq: "is_panic (fst (handle_data demo_host tok demo_server)) \<longleftrightarrow>
     (case (if tok = Token 999 then None else demo_streams tok) of
        None \<Rightarrow> True
      | Some stream \<Rightarrow> tok \<noteq> Token 999 \<and>
          (\<exists>data. fst (stream_read 256 stream) = Ok data \<and> data \<noteq> [] \<and>
             \<not> utf8_valid data \<and> (\<exists>e. demo_de data = Err e)))" for tok
    using handle_data_panics_exactly [OF demo_server_reachable, of demo_host tok]
    by (simp split: option.split)
  show ?thesis
    unfolding eq by (simp add: demo_streams_def peer_def stream_read_def demo_de_def demo_requests_def)
qed

lemma and_then_OkE:
  assumes "and_then m f s = (Ok y, s'')"
  obtains x s' where "m s = (Ok x, s')" and "f x s' = (Ok y, s'')"
  using assms by (cases "m s"; cases "fst (m s)") (auto simp: and_then_def)

lemma after_parse_not_Ok:
  assumes "fresh_primary s"
  shows "fst (after_parse h tok data m s) \<noteq> Ok ()"
proof
  assume ok: "fst (after_parse h tok data m s) = Ok ()"
  obtain s' where "after_parse h tok data m s = (Ok (), s')" using ok by (metis prod.collapse)
  then obtain r1 s1 u2 s2 where s1: "handle_message h m s = (Ok r1, s1)"
    and s2: "handle_response h tok r1 s1 = (Ok u2, s2)"
    and rest: "(let (requests, s) = collect_requests s2 in
       and_then (deliver_grants h requests) (\<lambda>_.
       and_then (forward_request data) (\<lambda>_. count_request)) s) = (Ok (), s')"
    unfolding after_parse_def by (elim and_then_OkE)
  obtain gs s3 where s3: "collect_requests s2 = (gs, s3)" by fastforce
  with rest have "and_then (deliver_grants h gs) (\<lambda>_.
       and_then (forward_request data) (\<lambda>_. count_request)) s3 = (Ok (), s')" by simp
  then obtain u4 s4 u5 s5 where s4: "deliver_grants h gs s3 = (Ok u4, s4)"
    and s5: "forward_request data s4 = (Ok u5, s5)" and last: "count_request s5 = (Ok (), s')"
    by (elim and_then_OkE)
  have "fresh_primary s5"
    using fresh_steps [OF assms] s1 s2 s3 s4 s5 by (metis fresh_steps snd_conv)
  with last show False
    by (simp add: count_request_def checked_succ_def fresh_primary_def Let_def split: if_splits)
qed

text \<open>
  C37: A primary server serves at most one request. A reachable server with a backup never comes back
  from a request with \<open>Ok\<close>: the request fails, or the process ends.
\<close>

theorem primary_serves_one_request:
  assumes "rs_reachable s" and "backup_stream s \<noteq> None"
  shows "fst (handle_request h tok data s) \<noteq> Ok ()"
  using after_parse_not_Ok [OF rs_reachable_fresh [OF assms]]
  by (simp add: handle_request_parse split: outcome.split)

theorem primary_serves_one_request_witness:
  "fst (handle_request demo_host (Token 1) [1] demo_primary) \<noteq> Ok () \<and>
   fst (handle_request demo_host (Token 1) [1] demo_primary) = Exit 0"
  using primary_serves_one_request [OF demo_primary_reachable, of demo_host "Token 1" "[1]"]
  by (simp add: demo_primary_def demo_new_def peer_def request_eval)

text \<open>
  Any client can stop the server: a stop request on any client stream ends the event loop with
  success, whatever events and further polls were to come, and changes nothing but that stream.
\<close>

lemma stop_request_ends_loop:
  assumes "rs_reachable s" and "tok \<noteq> LISTENER" and "tok \<noteq> backup_token s"
    and "token_stream_map s tok = Some st" and "stream_read 256 st = (Ok data, st')" and "data \<noteq> []"
    and "de h data = Ok registry_stop"
  shows "poll_loop h (Inr (PollEvent tok True accepts choice # es) # polls) s =
     (Ok False, s\<lparr>token_stream_map := (token_stream_map s)(tok \<mapsto> st')\<rparr>)"
  using assms(2-7)
  by (simp add: and_then_def handle_data_def answer_request_def handle_request_parse parse_logged_def
      from_slice_def after_parse_def handle_message_def registry_stop_def Let_def)

text \<open>
  C38: The loss of the backup stops the server: when a client connects and the write to the backup
  fails, \<open>bind\<close> returns this error, although the client was accepted.
\<close>

theorem backup_failure_ends_server:
  assumes "rs_reachable s" and "backup_stream s = Some b" and "write_plan b = Some (n, e) # later"
    and "register_plan (poll s) = []" and "write_plan st = []" and "writes_all (ser h)"
    and "id_counter s \<noteq> - 1"
  shows "fst (poll_loop h (Inr (PollEvent LISTENER True (Inr (st, a) # accepts) choice # es) # polls) s) =
       Err (IoError e) \<and>
     token_addr_map (snd (poll_loop h
       (Inr (PollEvent LISTENER True (Inr (st, a) # accepts) choice # es) # polls) s))
       (Token (id_counter s + 1)) = Some a"
proof -
  obtain ba where "backup_addr s = Some ba"
    using rs_reachable_inv [OF assms(1)] assms(2) by (auto simp: rs_inv_def)
  moreover obtain d1 d2 where "to_vec (ser h) (registry_connection (id_counter s + 1)) = Ok d1"
    "to_vec (ser h) (registry_connection_established (id_counter s + 1)) = Ok d2"
    using writes_all_to_vec [OF assms(6)] by metis
  ultimately show ?thesis
    using assms(2-5,7)
    by (simp add: and_then_def handle_connection_eq greet_def register_def poll_register_def
        stream_write_all_def forward_request_def Let_def)
qed

definition demo_broken :: RegistryServer where
  "demo_broken = (demo_new (Some (demo_addr 9)))\<lparr>backup_stream := Some ((peer [])
     \<lparr>write_plan := [Some (0, OsError OtherKind ''broken pipe'')]\<rparr>)\<rparr>"

lemma demo_broken_reachable: "rs_reachable demo_broken"
  by (rule rs_reachable.start [of
        "\<lambda>_. Ok ((peer [])\<lparr>write_plan := [Some (0, OsError OtherKind ''broken pipe'')]\<rparr>)"
        "Ok demo_poll" 4000 "Some (demo_addr 9)"])
     (simp add: new_registry_server_def demo_new_def demo_broken_def)

theorem backup_failure_ends_server_witness:
  "fst (poll_loop demo_host [Inr [PollEvent LISTENER True [Inr (peer [], demo_addr 2)] Min]] demo_broken) =
     Err (IoError (OsError OtherKind ''broken pipe''))"
  using backup_failure_ends_server [OF demo_broken_reachable, of _ 0 "OsError OtherKind ''broken pipe''"
      "[]" "peer []" demo_host "demo_addr 2" "[]" Min "[]" "[]"]
  by (simp add: demo_broken_def demo_new_def demo_poll_def peer_def)

section \<open>Requests and locks that go wrong\<close>

text \<open>
  C36: A refused read can take the lock. If a read of an idle key names a process without an
  address, the request fails with \<open>UnknownHolder\<close> of this very process, nothing is written and
  nothing forwarded to the backup, yet the process is registered as a reader.
\<close>

theorem unknown_reader_keeps_lock:
  assumes "rs_reachable s" and "key_states (access_manager s) k = Some ks"
    and "readers ks = {}" and "writer ks = None" and "hash_iter (pick h)"
    and "token_addr_map s (Token p) = None" and "de h data = Ok (registry_request k p Read)"
  shows "handle_request h tok data s =
     (Err (UnknownHolder (Token p)),
      s\<lparr>access_manager := (access_manager s)\<lparr>key_states :=
          (key_states (access_manager s))(k \<mapsto> ks\<lparr>readers := {p}\<rparr>)\<rparr>\<rparr>)"
proof -
  have "pending_request ks = []"
    using am_reachable_ks_inv [OF rs_reachable_manager [OF assms(1)] assms(2)] assms(3,4)
    by (simp add: ks_inv_def idle_def)
  moreover have "pick h {p} = p" using assms(5) by (auto simp: hash_iter_def)
  ultimately have "handle_message h (registry_request k p Read) s =
      (Err (UnknownHolder (Token p)),
       s\<lparr>access_manager := (access_manager s)\<lparr>key_states :=
          (key_states (access_manager s))(k \<mapsto> ks\<lparr>readers := {p}\<rparr>)\<rparr>\<rparr>)"
    using assms(2-4,6)
    by (simp add: handle_message_def registry_request_def read_response_def on_manager_eq
        read_access_eq holder_def register_reader_def put_key_state_def and_then_def
        proc_id_to_addr_def)
  with assms(7) show ?thesis
    by (simp add: handle_request_parse parse_logged_def from_slice_def after_parse_def)
qed

theorem unknown_reader_keeps_lock_witness:
  "fst (handle_request demo_host (Token 3) [5] demo_created) = Err (UnknownHolder (Token 9))"
proof -
  have reach: "rs_reachable demo_created"
    by (rule rs_reachable.event [OF demo_connected_reachable,
          of demo_host "PollEvent (Token 1) True [] Min"]) (simp add: demo_request_1)
  have "demo_de [5] = Ok (registry_request 0 9 Read)" by (simp add: demo_de_def demo_requests_def)
  with unknown_reader_keeps_lock [OF reach, of 0 "new_key_state 1" demo_host 9 "[5]" "Token 3"]
  show ?thesis
    by (simp add: demo_created_def demo_connected_def demo_new_def new_key_state_def hash_iter_Min)
qed

text \<open>
  C35: Grants get lost when the creator of the key has gone. A writer releases, a read is at the front
  of the queue and the creator has no address: the request fails with \<open>UnknownHolder\<close>, the reader
  holds the lock from now on, but nobody except the releasing client is told anything, the
  announcements are consumed and nothing is forwarded to the backup.
\<close>

theorem grants_lost_without_creator:
  assumes "rs_reachable s" and "writable s" and "can_write h (Success k)"
    and "key_states (access_manager s) k = Some ks" and "writer ks = Some p"
    and "pending_request ks = (q, Read) # rest" and "buffer (access_granted (access_manager s)) = []"
    and "token_addr_map s (Token (creator ks)) = None"
    and "token_stream_map s tok \<noteq> None" and "de h data = Ok (registry_request k p Release)"
  shows "\<exists>s' ks'. handle_request h tok data s = (Err (UnknownHolder (Token (creator ks))), s') \<and>
     key_states (access_manager s') k = Some ks' \<and> q \<in> readers ks' \<and>
     buffer (access_granted (access_manager s')) = [] \<and> backup_stream s' = backup_stream s \<and>
     (\<forall>tok'. tok' \<noteq> tok \<longrightarrow> token_stream_map s' tok' = token_stream_map s tok')"
proof -
  have inv: "am_inv (access_manager s)"
    using rs_reachable_manager [OF assms(1)] by (rule am_reachable_inv)
  then have ks: "ks_inv ks" using assms(4) by (auto dest: am_invD)
  define ks' where "ks' = snd (admit (ks\<lparr>writer := None\<rparr>))"
  define gs where "gs = map (announce k (creator ks)) (takeWhile is_read rest)"
  define am where "am = (access_manager s)\<lparr>key_states := (key_states (access_manager s))(k \<mapsto> ks')\<rparr>"
  have "idle (ks\<lparr>writer := None\<rparr>)" using ks assms(5) by (simp add: ks_inv_def idle_def)
  then have "release (pick h) p k (access_manager s) =
      (Ok (), am\<lparr>access_granted := (access_granted (access_manager s))
         \<lparr>buffer := (q, k, Read, creator ks) # gs\<rparr>\<rparr>)"
    using inv assms(4-7)
    by (simp add: release_eq drop_holder_def am_def ks'_def gs_def admit_def announce_def is_read_def)
  then have msg: "handle_message h (registry_request k p Release) s =
      (Ok (Success k), s\<lparr>access_manager := am\<lparr>access_granted := (access_granted (access_manager s))
         \<lparr>buffer := (q, k, Read, creator ks) # gs\<rparr>\<rparr>\<rparr>)" (is "_ = (_, ?s1)")
    by (simp add: handle_message_def registry_request_def success_response_eq)
  have "writable ?s1" using assms(2) by (simp add: writable_def)
  then have rsp: "handle_response h tok (Success k) ?s1 = (Ok (), tell h tok (Success k) ?s1)"
    using respond [OF _ assms(3), of ?s1 tok] assms(9) by simp
  have coll: "collect_requests (tell h tok (Success k) ?s1) =
      ((q, k, Read, creator ks) # gs, (tell h tok (Success k) ?s1)\<lparr>access_manager := am\<rparr>)"
    using assms(7) by (simp add: collect_requests_def collect_granted_def try_iter_def am_def)
  have "handle_request h tok data s =
      (Err (UnknownHolder (Token (creator ks))), (tell h tok (Success k) ?s1)\<lparr>access_manager := am\<rparr>)"
    using assms(8,10) msg rsp coll
    by (simp add: handle_request_parse parse_logged_def from_slice_def after_parse_def
        proc_id_to_addr_def and_then_def)
  moreover have "q \<in> readers ks'" using assms(6) by (simp add: ks'_def admit_def is_read_def)
  ultimately show ?thesis
    using assms(7)
    by (intro exI [of _ "(tell h tok (Success k) ?s1)\<lparr>access_manager := am\<rparr>"] exI [of _ ks'])
       (simp add: am_def tell_def split: option.split)
qed

theorem grants_lost_without_creator_witness:
  "\<exists>s' ks'. handle_request demo_host (Token 2) [4] demo_orphan = (Err (UnknownHolder (Token 1)), s') \<and>
     key_states (access_manager s') 0 = Some ks' \<and> 3 \<in> readers ks' \<and>
     sent_to s' (Token 3) = [67, 10, 87, 10]"
proof -
  have "\<exists>s' ks'. handle_request demo_host (Token 2) [4] demo_orphan =
       (Err (UnknownHolder (Token (creator demo_lock))), s') \<and>
     key_states (access_manager s') 0 = Some ks' \<and> 3 \<in> readers ks' \<and>
     buffer (access_granted (access_manager s')) = [] \<and> backup_stream s' = backup_stream demo_orphan \<and>
     (\<forall>tok'. tok' \<noteq> Token 2 \<longrightarrow> token_stream_map s' tok' = token_stream_map demo_orphan tok')"
    by (rule grants_lost_without_creator [OF demo_orphan_reachable, where p = 2 and rest = "[]"])
       (auto simp: demo_orphan_def demo_new_def demo_lock_def writable_def peer_def channel_new_def
         demo_de_def demo_requests_def demo_can_write)
  then obtain s' ks' where s': "handle_request demo_host (Token 2) [4] demo_orphan =
       (Err (UnknownHolder (Token (creator demo_lock))), s')"
    and ks': "key_states (access_manager s') 0 = Some ks'" "3 \<in> readers ks'"
    and rest: "\<forall>tok'. tok' \<noteq> Token 2 \<longrightarrow> token_stream_map s' tok' = token_stream_map demo_orphan tok'"
    by blast
  have "sent_to s' (Token 3) = [67, 10, 87, 10]"
    using rest by (simp add: sent_to_def demo_orphan_def)
  with s' ks' show ?thesis by (auto simp: demo_lock_def)
qed

text \<open>
  A client that disconnects keeps its lock. The end of the stream removes the client from both
  maps and leaves the access manager as it is; if the client is the writer of a key, every write and
  every read of the key by any other process is answered with \<open>Wait\<close>.
\<close>

lemma disconnect_keeps_lock:
  assumes "rs_reachable s" and "token_stream_map s (Token p) = Some st" and "Token p \<noteq> backup_token s"
    and "fst (stream_read 256 st) = Ok []"
    and "key_states (access_manager s) k = Some ks" and "writer ks = Some p"
    and "t = Read \<or> t = Write"
  shows "\<exists>s'. handle_data h (Token p) s = (Ok (), s') \<and> access_manager s' = access_manager s \<and>
     token_stream_map s' (Token p) = None \<and> token_addr_map s' (Token p) = None \<and>
     fst (handle_message h' (Registry (Request q t k)) s') = Ok (Wait k)"
proof -
  obtain st' where rd: "stream_read 256 st = (Ok [], st')" using assms(4) by (metis prod.collapse)
  let ?s = "remove_client (Token p) (s\<lparr>token_stream_map := (token_stream_map s)(Token p \<mapsto> st')\<rparr>)"
  have "p \<noteq> token_id (backup_token s)" using assms(3) by (cases "backup_token s") simp
  then have "handle_data h (Token p) s = (Ok (), ?s)"
    using assms(2) rd by (simp add: handle_data_def)
  moreover have "fst (handle_message h' (Registry (Request q t k)) ?s) = Ok (Wait k)"
    using assms(5-7)
    by (auto simp: handle_message_def read_response_def write_response_def on_manager_eq
        read_access_eq write_access_eq idle_def remove_client_def)
  ultimately show ?thesis by (simp add: remove_client_def)
qed

section \<open>Invariants\<close>

text \<open>
  C19: What is always true of a server: exactly one process writes a key or several read it; every
  client with an address has a stream and a number that was given out; the only stream without
  an address is that of the primary registry; announcements are for reads and writes; and the
  reserved tokens never change.
\<close>

theorem server_well_formed:
  assumes "rs_reachable s"
  shows "(\<forall>k ks w. key_states (access_manager s) k = Some ks \<and> writer ks = Some w \<longrightarrow> readers ks = {}) \<and>
     dom (token_addr_map s) \<subseteq> dom (token_stream_map s) \<and>
     dom (token_stream_map s) - dom (token_addr_map s) \<subseteq> {Token 1000} \<and>
     (\<forall>tok \<in> dom (token_addr_map s). Token 0 < tok \<and> tok \<le> Token (id_counter s)) \<and>
     (\<forall>(p, k, t, hold) \<in> set (buffer (access_granted (access_manager s))). t = Read \<or> t = Write) \<and>
     backup_token s = Token 999 \<and> primary_token s = Token 1000"
proof -
  have "am_reachable (access_manager s)" using assms by (rule rs_reachable_manager)
  then have "am_inv (access_manager s)" "list_all grant_ok (buffer (access_granted (access_manager s)))"
    using am_reachable_grants by (auto simp: grants_inv_def)
  moreover from this have "\<forall>k ks w. key_states (access_manager s) k = Some ks \<and> writer ks = Some w \<longrightarrow>
      readers ks = {}"
    by (auto simp: am_inv_def ks_inv_def)
  ultimately show ?thesis
    using rs_reachable_inv [OF assms] by (auto simp: rs_inv_def list_all_iff grant_ok_def)
qed

theorem server_well_formed_witness:
  "readers demo_lock = {} \<and> Token 3 \<le> Token (id_counter demo_server)"
  using server_well_formed [OF demo_server_reachable] by (auto simp: demo_lock_def)

section \<open>Errors\<close>

text \<open>
  C21: Every failed request is answered. If the handling of the bytes of a client fails, with
  any error but a stop request, the client gets the text of the error as an \<open>Error\<close> response on
  its stream, and the event loop goes on.
\<close>

theorem failed_request_is_answered:
  assumes "rs_reachable s" and "tok \<noteq> backup_token s" and "token_stream_map s tok = Some st"
    and "stream_read 256 st = (Ok data, st')" and "data \<noteq> []"
    and "handle_request h tok data (s\<lparr>token_stream_map := (token_stream_map s)(tok \<mapsto> st')\<rparr>) = (Err e, s1)"
    and "e \<noteq> RegistryServerError.StopRequest" and "writable s1" and "can_write h (Error (display_rs_error e))"
  shows "handle_data h tok s = (Ok (), tell h tok (Error (display_rs_error e)) s1)"
proof -
  have "request_footprint (s\<lparr>token_stream_map := (token_stream_map s)(tok \<mapsto> st')\<rparr>) s1"
    using footprint_handle_request [of _ h tok data] assms(6) by (metis snd_conv)
  then have "token_stream_map s1 tok \<noteq> None"
    by (auto simp: request_footprint_def)
  then have "handle_error h tok e s1 = (Ok (), tell h tok (Error (display_rs_error e)) s1)"
    using respond [OF assms(8,9)] by (simp add: handle_error_def)
  with assms(2-7) show ?thesis
    by (simp add: handle_data_def answer_request_def Let_def)
qed

theorem failed_request_is_answered_witness:
  "fst (handle_data (demo_host\<lparr>de := \<lambda>_. Err ''expected value''\<rparr>) (Token 2) demo_server) = Ok () \<and>
   sent_to (snd (handle_data (demo_host\<lparr>de := \<lambda>_. Err ''expected value''\<rparr>) (Token 2) demo_server))
     (Token 2) = [67, 10, 83, 10, 69, 10]"
proof -
  let ?st = "(peer [])\<lparr>sent := [67, 10, 83, 10]\<rparr>"
  let ?s = "demo_server\<lparr>token_stream_map := demo_streams(Token 2 \<mapsto> ?st)\<rparr>"
  have "handle_data (demo_host\<lparr>de := \<lambda>_. Err ''expected value''\<rparr>) (Token 2) demo_server =
     (Ok (), tell (demo_host\<lparr>de := \<lambda>_. Err ''expected value''\<rparr>) (Token 2)
        (Error (display_rs_error (SerializationError ''expected value''))) ?s)"
  proof (rule failed_request_is_answered [OF demo_server_reachable, where data = "[4]" and
        st = "(peer [[4]])\<lparr>sent := [67, 10, 83, 10]\<rparr>" and st' = ?st])
    show "writable ?s" using demo_server_writable by (simp add: writable_def peer_def)
  qed (simp_all add: can_write_def demo_ser_def demo_streams_def peer_def stream_read_def handle_request_parse
      parse_logged_def from_slice_def)
  then show ?thesis
    by (simp add: sent_tell) (simp add: sent_to_def wire_def to_vec_def registry_response_def demo_ser_def)
qed

text \<open>
  Messages survive the wire. With a JSON library that reads back what it wrote, whatever
  \<open>to_vec\<close> writes is parsed as the same message and ends with its only newline.
\<close>

lemma message_roundtrip:
  assumes "json_codec wr rd" and "to_vec wr m = Ok bs"
  shows "from_slice rd bs = Ok m \<and> (\<exists>json. bs = json @ [newline] \<and> newline \<notin> set json \<and>
     from_slice rd json = Ok m)"
  using assms by (cases "wr m") (auto simp: json_codec_def to_vec_def from_slice_def)

definition stop_ser :: json_writer where
  "stop_ser m = (if m = registry_stop then Ok [34, 83, 34] else Err ''not in the table'')"

definition stop_de :: json_reader where
  "stop_de bs = (if bs = [34, 83, 34] \<or> bs = [34, 83, 34, 10] then Ok registry_stop else Err ''no JSON'')"

end
