(* ===== verification/Registry_Safety.thy ===== *)
theory Registry_Safety
  imports Registry_Demo
begin

text \<open>
  What the events of a registry server can do to the lock of a process: a lock that is held stays held
  until it is released, whatever else happens; and how the registry takes the bytes of a client for
  requests.
\<close>

section \<open>Holding a lock\<close>

definition has_lock :: "ProcId \<Rightarrow> RequestType \<Rightarrow> KeyState \<Rightarrow> bool" where
  "has_lock p t ks \<longleftrightarrow> (t = Write \<and> writer ks = Some p) \<or> (t = Read \<and> p \<in> readers ks)"

definition keeps_lock :: "ProcId \<Rightarrow> RequestType \<Rightarrow> KeyId \<Rightarrow> (KeyId \<rightharpoonup> KeyState) \<Rightarrow> bool" where
  "keeps_lock p t k m \<longleftrightarrow> (\<exists>ks. m k = Some ks \<and> has_lock p t ks)"

lemma has_lock_not_idle: "has_lock p t ks \<Longrightarrow> \<not> idle ks"
  by (auto simp: has_lock_def idle_def)

lemma has_lock_put [simp]:
  "has_lock p t (push_back r ks) = has_lock p t ks"
  "has_lock p t ks \<Longrightarrow> has_lock p t (register_reader q ks)"
  by (auto simp: has_lock_def push_back_def register_reader_def)

text \<open>The release of another process removes nobody else.\<close>

lemma drop_holder_other:
  assumes "ks_inv ks" and "has_lock p t ks" and "drop_holder q ks = Some ks'" and "q \<noteq> p"
  shows "has_lock p t ks'"
  using assms by (auto simp: drop_holder_def has_lock_def ks_inv_def split: if_splits)

lemma call_keeps_lock:
  assumes inv: "am_inv am" and lock: "keeps_lock p t k (key_states am)"
    and other: "\<not> (q = p \<and> t' = Release \<and> k' = k)"
  shows "keeps_lock p t k (key_states (snd (am_step (pk, Call q t' k') am)))"
proof -
  obtain ks where ks: "key_states am k = Some ks" "has_lock p t ks"
    using lock by (auto simp: keeps_lock_def)
  note busy = has_lock_not_idle [OF ks(2)]
  show ?thesis
  proof (cases t')
    case Release
    show ?thesis
    proof (cases "k' = k")
      case True
      with other Release have "q \<noteq> p" by simp
      from am_invD(2) [OF inv ks(1)] have inv_ks: "ks_inv ks" .
      show ?thesis
      proof (cases "drop_holder q ks")
        case None
        with Release True ks inv show ?thesis by (simp add: release_eq keeps_lock_def)
      next
        case (Some ks')
        from drop_holder_other [OF inv_ks ks(2) Some \<open>q \<noteq> p\<close>] have "has_lock p t ks'" .
        with has_lock_not_idle [OF this] Some Release True ks inv show ?thesis
          by (simp add: release_eq keeps_lock_def put_key_state_def)
      qed
    next
      case False
      with Release ks inv show ?thesis
        by (auto simp: release_eq keeps_lock_def put_key_state_def split: option.split)
    qed
  qed (use ks busy in \<open>auto simp: keeps_lock_def create_eq delete_eq read_access_eq write_access_eq
        put_key_state_def split: option.split\<close>)
qed

section \<open>The locks after data and connections\<close>

lemma handle_request_effect:
  "key_states (access_manager (snd (handle_request h tok data s))) =
     (case de h data of
        Ok m \<Rightarrow> key_states (access_manager (snd (handle_message h m s)))
      | _ \<Rightarrow> key_states (access_manager s))"
  using after_parse_keys [of h _ s tok data]
  by (auto simp: handle_request_parse parse_logged_def from_slice_def same_keys_def split: outcome.split)

lemma answer_request_effect:
  "key_states (access_manager (snd (answer_request h tok data s))) =
     key_states (access_manager (snd (handle_request h tok data s)))"
  using same_keys_response
  by (auto simp: answer_request_def handle_error_def same_keys_def split: prod.split outcome.split)

lemma handle_message_keeps_lock:
  assumes "am_inv (access_manager s)" and "keeps_lock p t k (key_states (access_manager s))"
    and "m \<noteq> registry_request k p Release"
  shows "keeps_lock p t k (key_states (access_manager (snd (handle_message h m s))))"
proof (cases "\<exists>q t' k'. m = Registry (Request q t' k')")
  case True
  then obtain q t' k' where m: "m = Registry (Request q t' k')" by blast
  with assms(3) have "\<not> (q = p \<and> t' = Release \<and> k' = k)" by (auto simp: registry_request_def)
  from call_keeps_lock [OF assms(1,2) this] show ?thesis by (simp add: m handle_message_state)
qed (simp add: handle_message_other assms(2))

text \<open>The bytes that \<open>handle_data\<close> takes for a request of a client.\<close>

definition request_bytes :: "RegistryServer \<Rightarrow> Token \<Rightarrow> byte list option" where
  "request_bytes s tok =
     (if tok = backup_token s then None
      else case token_stream_map s tok of
        None \<Rightarrow> None
      | Some st \<Rightarrow> (case fst (stream_read 256 st) of Ok data \<Rightarrow> Some data | _ \<Rightarrow> None))"

lemma handle_data_keeps_lock:
  assumes inv: "rs_inv s" and lock: "keeps_lock p t k (key_states (access_manager s))"
    and no: "\<And>data. request_bytes s tok = Some data \<Longrightarrow> de h data \<noteq> Ok (registry_request k p Release)"
  shows "keeps_lock p t k (key_states (access_manager (snd (handle_data h tok s))))"
proof (cases "stream_of s tok")
  case None
  with lock show ?thesis by (simp add: handle_data_def stream_of_def)
next
  case (Some st)
  obtain r st' where rd: "stream_read 256 st = (r, st')" by fastforce
  show ?thesis
  proof (cases "tok = backup_token s")
    case True
    with Some rd lock show ?thesis
      by (cases r) (auto simp: handle_data_def stream_of_def remove_client_def Let_def)
  next
    case False
    let ?s = "s\<lparr>token_stream_map := (token_stream_map s)(tok \<mapsto> st')\<rparr>"
    have am: "am_inv (access_manager ?s)" using inv by (auto simp: rs_inv_def intro: am_reachable_inv)
    have "keeps_lock p t k (key_states (access_manager (snd (answer_request h tok data ?s))))"
      if "r = Ok data" for data
    proof (cases "de h data")
      case (Ok m)
      have "request_bytes s tok = Some data"
        using False Some rd that by (simp add: request_bytes_def stream_of_def)
      with no Ok have "m \<noteq> registry_request k p Release" by auto
      from handle_message_keeps_lock [OF am _ this] lock Ok show ?thesis
        by (simp add: answer_request_effect handle_request_effect)
    qed (use lock in \<open>simp_all add: answer_request_effect handle_request_effect\<close>)
    with False Some rd lock show ?thesis
      by (cases r) (auto simp: handle_data_def stream_of_def remove_client_def Let_def)
  qed
qed

lemma accept_loop_manager [simp]: "access_manager (snd (accept_loop h accepts s)) = access_manager s"
proof (induction h accepts s rule: accept_loop.induct)
  case (2 h stream a rest s)
  have conn: "access_manager (snd (handle_connection h stream a s)) = access_manager s"
    by (auto simp: handle_connection_eq greet_def register_def and_then_def forward_request_def
        Let_def split: prod.split outcome.split option.split)
  obtain r s' where "handle_connection h stream a s = (r, s')" by fastforce
  with conn 2(1) [of s'] show ?case by (cases r) auto
qed simp_all

lemma serve_event_keeps_lock:
  assumes "rs_inv s" and "keeps_lock p t k (key_states (access_manager s))"
    and "\<And>data. request_bytes s tok = Some data \<Longrightarrow> de h data \<noteq> Ok (registry_request k p Release)"
  shows "keeps_lock p t k (key_states (access_manager (snd (serve_event h (PollEvent tok readable accepts choice) s))))"
proof -
  let ?h = "h\<lparr>pick := choice\<rparr>"
  have "keeps_lock p t k (key_states (access_manager (snd (handle_data ?h tok s))))"
    using handle_data_keeps_lock [OF assms(1,2), of tok ?h] assms(3) by simp
  moreover obtain r s' where acc: "accept_loop ?h accepts s = (r, s')" by fastforce
  moreover from acc have "access_manager s' = access_manager s"
    using accept_loop_manager [of ?h accepts s] by simp
  ultimately show ?thesis
    using assms(2)
    by (cases r) (auto simp: Let_def and_then_def split: prod.split outcome.split RegistryServerError.split)
qed

section \<open>Properties\<close>

text \<open>
  C12: A lock is kept until it is released. If a process holds a key for reading or writing, then after any
  event of the server (connections, requests of any client for any key, failures, the end of a stream)
  it still holds it, unless the bytes of the event are a request to release this key in the name of
  this process.
\<close>

theorem lock_kept_until_released:
  assumes "rs_reachable s" and "key_states (access_manager s) k = Some ks"
    and "t = Write \<and> writer ks = Some p \<or> t = Read \<and> p \<in> readers ks"
    and "\<And>data. request_bytes s tok = Some data \<Longrightarrow> de h data \<noteq> Ok (registry_request k p Release)"
  shows "\<exists>ks'. key_states (access_manager (snd (serve_event h (PollEvent tok readable accepts choice) s))) k =
       Some ks' \<and> (t = Write \<and> writer ks' = Some p \<or> t = Read \<and> p \<in> readers ks')"
proof -
  have "keeps_lock p t k (key_states (access_manager s))"
    using assms(2,3) by (auto simp: keeps_lock_def has_lock_def)
  from serve_event_keeps_lock [OF rs_reachable_inv [OF assms(1)] this assms(4),
      where readable = readable and accepts = accepts and choice = choice]
  show ?thesis by (simp add: keeps_lock_def has_lock_def)
qed

theorem lock_kept_until_released_witness:
  "\<exists>ks'. key_states (access_manager (snd (serve_event demo_host (PollEvent (Token 3) True [] Min)
       demo_server))) 0 = Some ks' \<and> writer ks' = Some 2"
proof -
  have "request_bytes demo_server (Token 3) = Some []"
    by (simp add: request_bytes_def demo_streams_def peer_def stream_read_def)
  then show ?thesis
    using lock_kept_until_released [OF demo_server_reachable, of 0 demo_lock Write 2 "Token 3" demo_host
        True "[]" Min]
    by (simp add: demo_lock_def demo_de_def demo_requests_def)
qed

text \<open>A reader that refuses a message followed by anything but white space.\<close>

definition json_space :: "byte \<Rightarrow> bool" where
  "json_space b \<longleftrightarrow> b = 9 \<or> b = 10 \<or> b = 13 \<or> b = 32"

definition json_strict :: "json_reader \<Rightarrow> bool" where
  "json_strict rd \<longleftrightarrow> (\<forall>bs m rest. rd bs = Ok m \<and> \<not> list_all json_space rest \<longrightarrow> (\<exists>e. rd (bs @ rest) = Err e))"

text \<open>
  C31: Requests that arrive together are lost. If two messages of a client are in one chunk of bytes, and
  the JSON library refuses a message with trailing characters, the registry handles neither of
  them: the locks stay as they are, and the client gets one error.
\<close>

theorem coalesced_requests_lost:
  assumes "rs_reachable s" and "json_codec (ser h) (de h)" and "json_strict (de h)"
    and "token_stream_map s tok = Some st" and "tok \<noteq> backup_token s"
    and "to_vec (ser h) m1 = Ok data1" and "to_vec (ser h) m2 = Ok data2"
    and "incoming st = Inr (data1 @ data2) # later" and "length (data1 @ data2) \<le> 256"
    and "\<not> list_all json_space data2" and "utf8_valid (data1 @ data2)"
    and "writable s"
    and "\<And>e. de h (data1 @ data2) = Err e \<Longrightarrow> can_write h (Error (''Serialization error: '' @ e))"
  shows "\<exists>e s'. de h (data1 @ data2) = Err e \<and> handle_data h tok s = (Ok (), s') \<and>
     access_manager s' = access_manager s \<and>
     sent_to s' tok = sent_to s tok @ wire h (Error (''Serialization error: '' @ e))"
proof -
  let ?s = "s\<lparr>token_stream_map := (token_stream_map s)(tok \<mapsto> st\<lparr>incoming := later\<rparr>)\<rparr>"
  have "de h data1 = Ok m1" using to_vec_roundtrip [OF assms(2,6)] by (simp add: from_slice_def)
  with assms(3,10) obtain e where e: "de h (data1 @ data2) = Err e"
    unfolding json_strict_def by blast
  have ne: "data2 \<noteq> []" using assms(10) by auto
  have "handle_request h tok (data1 @ data2) ?s = (Err (SerializationError e), ?s)"
    using e assms(11) by (simp add: handle_request_parse parse_logged_def from_slice_def)
  moreover have "handle_error h tok (SerializationError e) ?s =
      (Ok (), tell h tok (Error (''Serialization error: '' @ e)) ?s)"
  proof -
    have "writable ?s" using assms(4,12) by (auto simp: writable_def)
    moreover have "can_write h (Error (display_rs_error (SerializationError e)))"
      using assms(13) [OF e] by simp
    ultimately have "handle_error h tok (SerializationError e) ?s =
        (Ok (), tell h tok (Error (display_rs_error (SerializationError e))) ?s)"
      by (simp add: handle_error_def respond del: display_rs_error.simps)
    then show ?thesis by simp
  qed
  ultimately have "handle_data h tok s = (Ok (), tell h tok (Error (''Serialization error: '' @ e)) ?s)"
    using assms(4,5,8,9) ne
    by (simp add: handle_data_def stream_read_def answer_request_def Let_def)
  moreover have "sent_to ?s tok = sent_to s tok" using assms(4) by (simp add: sent_to_def)
  ultimately show ?thesis using e by (auto simp: sent_tell)
qed

text \<open>A strict codec of five messages, and a server whose client sends two of them at once.\<close>

definition strict_table :: "(byte list \<times> Message) list" where
  "strict_table =
     [([67], registry_connection 1), ([99], registry_connection_established 1), ([1], registry_request 0 1 Create),
      ([2], registry_request 0 1 Write),
      ([69], registry_response (Error ''Serialization error: trailing characters''))]"

abbreviation strict_host :: host where
  "strict_host \<equiv> table_host strict_table"

lemma strict_codec: "json_codec (table_ser strict_table) (table_de strict_table)"
  by (rule table_codec) (simp_all add: strict_table_def)

lemma strict_eval [simp]:
  "table_ser strict_table (registry_request 0 1 Create) = Ok [1]"
  "table_ser strict_table (registry_request 0 1 Write) = Ok [2]"
  "table_ser strict_table (registry_response (Error ''Serialization error: trailing characters'')) = Ok [69]"
  "table_de strict_table [1, 10, 2, 10] = Err ''trailing characters''"
  by (simp_all add: table_ser_def table_de_def strict_table_def message_defs)

lemma strict_length: "table_de strict_table bs = Ok m \<Longrightarrow> bs \<noteq> [] \<and> (length bs = 1 \<or> (length bs = 2 \<and> last bs = newline))"
  by (cases bs rule: rev_cases) (auto simp: table_de_def strict_table_def split: if_splits)

lemma strict_json: "json_strict (table_de strict_table)"
proof -
  have "\<exists>e. table_de strict_table (bs @ rest) = Err e" if bs: "table_de strict_table bs = Ok m" and rest: "\<not> list_all json_space rest"
    for bs m rest
  proof (rule ccontr)
    assume "\<not> ?thesis"
    then obtain m' where "table_de strict_table (bs @ rest) = Ok m'"
      by (auto simp: table_de_def split: option.splits)
    from strict_length [OF this] strict_length [OF bs] rest
    have "length rest = 1 \<and> last (bs @ rest) = newline" by (auto split: if_splits)
    with rest have "length rest = 1" "last rest = newline" by (cases rest; simp)+
    then show False using rest by (auto simp: length_Suc_conv json_space_def)
  qed
  then show ?thesis by (auto simp: json_strict_def)
qed

definition demo_coalesced :: RegistryServer where
  "demo_coalesced =
     (demo_new None)
       \<lparr>first_connection := False,
        token_stream_map := [Token 1000 \<mapsto> peer [], Token 1 \<mapsto> (peer [[1, 10, 2, 10]])\<lparr>sent := [67, 10]\<rparr>],
        token_addr_map := [Token 1 \<mapsto> demo_addr 2],
        poll := \<lparr>register_plan = [], registered = [Token 1, Token 1000]\<rparr>,
        id_counter := 1\<rparr>"

lemma demo_coalesced_reachable: "rs_reachable demo_coalesced"
proof -
  have "accept_loop strict_host
      [Inr (peer [], demo_addr 1), Inr (peer [[1, 10, 2, 10]], demo_addr 2)] (demo_new None) =
      (Ok (), demo_coalesced)"
    by (simp add: demo_new_def demo_coalesced_def table_ser_def strict_table_def message_defs connection_eval)
  then have "serve_event strict_host (PollEvent LISTENER True
      [Inr (peer [], demo_addr 1), Inr (peer [[1, 10, 2, 10]], demo_addr 2)] Min) (demo_new None) =
      (Ok True, demo_coalesced)"
    by simp
  then show ?thesis by (rule rs_reachable.event [OF demo_new_reachable])
qed

theorem coalesced_requests_lost_witness:
  "\<exists>s'. handle_data strict_host (Token 1) demo_coalesced = (Ok (), s') \<and>
     access_manager s' = new_access_manager \<and> sent_to s' (Token 1) = [67, 10, 69, 10]"
proof -
  have "\<exists>e s'. table_de strict_table ([1, 10] @ [2, 10]) = Err e \<and>
      handle_data strict_host (Token 1) demo_coalesced = (Ok (), s') \<and>
      access_manager s' = access_manager demo_coalesced \<and>
      sent_to s' (Token 1) = sent_to demo_coalesced (Token 1) @
        wire strict_host (Error (''Serialization error: '' @ e))"
    using coalesced_requests_lost [OF demo_coalesced_reachable, where h = strict_host and tok = "Token 1" and
        st = "(peer [[1, 10, 2, 10]])\<lparr>sent := [67, 10]\<rparr>" and later = "[]" and
        ?data1.0 = "[1, 10]" and ?data2.0 = "[2, 10]" and
        ?m1.0 = "registry_request 0 1 Create" and ?m2.0 = "registry_request 0 1 Write"]
    by (simp add: strict_codec strict_json demo_coalesced_def demo_new_def peer_def to_vec_def
        json_space_def writable_def can_write_def)
  then show ?thesis
    by (simp add: demo_coalesced_def demo_new_def sent_to_def wire_def to_vec_def)
qed

end
