(* ===== verification/Registry_Mirror.thy ===== *)
theory Registry_Mirror
  imports Registry_Claims Registry_Safety
begin

text \<open>
  A primary registry and its backup: what the primary writes to the backup when it handles a request,
  and what the backup makes of these bytes.
\<close>

section \<open>What reaches the backup\<close>

text \<open>
  \<open>unsent\<close> is a step that ends no process and writes nothing to the backup; \<open>sent_on_exit\<close> is the
  whole handler, which writes the bytes of the request exactly if it ends the process.
\<close>

definition unsent :: "TcpStream \<Rightarrow> (RegistryServerError, 'a) outcome \<times> RegistryServer \<Rightarrow> bool" where
  "unsent bs x \<longleftrightarrow> (\<forall>n. fst x \<noteq> Exit n) \<and> backup_stream (snd x) = Some bs \<and> request_counter (snd x) = 0"

definition sent_on_exit ::
  "TcpStream \<Rightarrow> byte list \<Rightarrow> (RegistryServerError, 'a) outcome \<times> RegistryServer \<Rightarrow> bool"
where
  "sent_on_exit bs data x \<longleftrightarrow>
     backup_stream (snd x) = Some (if fst x = Exit 0 then bs\<lparr>sent := sent bs @ data\<rparr> else bs)"

lemma sent_and_then:
  assumes "unsent bs (m s)"
    and "\<And>x s'. m s = (Ok x, s') \<Longrightarrow> backup_stream s' = Some bs \<Longrightarrow> request_counter s' = 0 \<Longrightarrow>
      sent_on_exit bs data (f x s')"
  shows "sent_on_exit bs data (and_then m f s)"
proof (cases "m s")
  case (Pair r s')
  with assms show ?thesis by (cases r) (auto simp: unsent_def sent_on_exit_def)
qed

lemma unsent_and_then:
  assumes "unsent bs (m s)"
    and "\<And>x s'. m s = (Ok x, s') \<Longrightarrow> backup_stream s' = Some bs \<Longrightarrow> request_counter s' = 0 \<Longrightarrow>
      unsent bs (f x s')"
  shows "unsent bs (and_then m f s)"
proof (cases "m s")
  case (Pair r s')
  with assms show ?thesis by (cases r) (auto simp: unsent_def)
qed

lemma unsent_response:
  assumes "json_total (ser h) (de h)" and "backup_stream s = Some bs" and "request_counter s = 0"
  shows "unsent bs (handle_response h tok r s)"
proof -
  have no_exit: "map_err f (fst (stream_write_all data st)) \<noteq> Exit n" for f :: "io_error \<Rightarrow> RegistryServerError" and data st n
    using stream_write_outcome [of data st] by auto
  show ?thesis
    by (rule to_vec_total [OF assms(1), of "registry_response r"])
       (use no_exit assms(2,3) in \<open>auto simp: unsent_def handle_response_def split_beta split: option.split\<close>)
qed

lemma unsent_message:
  assumes "am_inv (access_manager s)" and "backup_stream s = Some bs" and "request_counter s = 0"
  shows "unsent bs (handle_message h m s)"
proof -
  have "fst (handle_message h m s) \<noteq> Exit n" for n
    using assms(1)
    by (auto simp: handle_message_def success_response_eq read_response_def write_response_def on_manager_eq
        create_eq delete_eq release_eq read_access_eq write_access_eq and_then_def proc_id_to_addr_def
        split: Message.split RegistryMessage.split RequestType.split option.split)
  moreover have "backup_stream (snd (handle_message h m s)) = Some bs"
  proof (cases "\<exists>p t k. m = Registry (Request p t k)")
    case True
    then obtain p t k where "m = Registry (Request p t k)" by blast
    with assms(2) show ?thesis by (simp add: handle_message_state)
  qed (simp add: handle_message_other assms(2))
  ultimately show ?thesis using assms(3) by (simp add: unsent_def counter_handle_message)
qed

lemma unsent_deliver:
  assumes "json_total (ser h) (de h)" and "backup_stream s = Some bs" and "request_counter s = 0"
  shows "unsent bs (deliver_grants h gs s)"
  using assms(2,3)
proof (induction gs arbitrary: s)
  case Nil
  then show ?case by (simp add: unsent_def)
next
  case (Cons g gs)
  obtain p k t hold where g: "g = (p, k, t, hold)" by (metis prod.exhaust)
  have "unsent bs (case handle_response h (Token p) response s' of
            (Err (InvalidToken _), s) \<Rightarrow> deliver_grants h gs s
          | (Err err, s) \<Rightarrow> (Err err, s)
          | (Ok _, s) \<Rightarrow> deliver_grants h gs s
          | (Panic p, s) \<Rightarrow> (Panic p, s)
          | (Exit n, s) \<Rightarrow> (Exit n, s))"
    if "backup_stream s' = Some bs" "request_counter s' = 0" for response s'
  proof -
    obtain r s'' where rsp: "handle_response h (Token p) response s' = (r, s'')" by fastforce
    with unsent_response [OF assms(1) that, of "Token p" response]
    have s'': "unsent bs (r, s'')" by simp
    then have "unsent bs (deliver_grants h gs s'')" by (intro Cons.IH) (simp_all add: unsent_def)
    with s'' rsp show ?thesis by (auto split: outcome.split RegistryServerError.split)
  qed
  then show ?case
    unfolding g deliver_grants.simps
    by (intro unsent_and_then)
       (use Cons.prems in \<open>auto simp: unsent_def and_then_def proc_id_to_addr_def
          split: RequestType.split option.split\<close>)
qed

lemma sent_forward:
  assumes "backup_stream s = Some bs" and "request_counter s = 0" and "write_plan bs = []"
  shows "sent_on_exit bs data (and_then (forward_request data) (\<lambda>_. count_request) s)"
  using forward [of s data] assms
  by (simp add: sent_on_exit_def count_request_def checked_succ_def backup_gets_def)

lemma sent_after_parse:
  assumes "rs_inv s" and "json_total (ser h) (de h)"
    and "backup_stream s = Some bs" and "request_counter s = 0" and "write_plan bs = []"
  shows "sent_on_exit bs data (after_parse h tok data m s)"
  unfolding after_parse_def
proof (intro sent_and_then)
  show "unsent bs (handle_message h m s)"
    using assms by (intro unsent_message) (auto simp: rs_inv_def intro: am_reachable_inv)
next
  fix rsp and s1 :: RegistryServer
  assume "backup_stream s1 = Some bs" "request_counter s1 = 0"
  then show "unsent bs (handle_response h tok rsp s1)" by (rule unsent_response [OF assms(2)])
next
  fix rsp and s1 :: RegistryServer and u and s2 :: RegistryServer
  assume s2: "backup_stream s2 = Some bs" "request_counter s2 = 0"
  obtain gs s3 where c: "collect_requests s2 = (gs, s3)" by fastforce
  then have "backup_stream s3 = Some bs" "request_counter s3 = 0"
    using s2 by (auto simp: collect_requests_def split: prod.splits)
  then have "sent_on_exit bs data (and_then (deliver_grants h gs) (\<lambda>_.
      and_then (forward_request data) (\<lambda>_. count_request)) s3)"
    by (intro sent_and_then unsent_deliver [OF assms(2)] sent_forward assms(5))
  with c show "sent_on_exit bs data (let (requests, s) = collect_requests s2 in
      and_then (deliver_grants h requests) (\<lambda>_.
      and_then (forward_request data) (\<lambda>_. count_request)) s)"
    by simp
qed

lemma sent_answer:
  assumes "rs_inv s" and "json_total (ser h) (de h)"
    and "backup_stream s = Some bs" and "request_counter s = 0" and "write_plan bs = []"
  shows "sent_on_exit bs data (answer_request h tok data s)"
proof -
  obtain r s' where req: "handle_request h tok data s = (r, s')" by fastforce
  have "sent_on_exit bs data (handle_request h tok data s)"
  proof (cases "parse_logged h data")
    case (Ok m)
    with sent_after_parse [OF assms] show ?thesis by (simp add: handle_request_parse)
  next
    case (Exit n)
    with json_totalD(2) [OF assms(2), of data] show ?thesis
      by (auto simp: parse_logged_def from_slice_def split: if_splits)
  qed (use assms(3) in \<open>simp_all add: handle_request_parse sent_on_exit_def\<close>)
  with req have r: "sent_on_exit bs data (r, s')" by simp
  have err: "sent_on_exit bs data (handle_error h tok e s')" if "r = Err e" for e
  proof -
    have "request_counter s' = 0 \<or> r = Exit 0"
      using zero_handle_request [of s h tok data] req assms(3,4)
      by (auto simp: zero_or_exit_def fresh_primary_def)
    then have "unsent bs (handle_error h tok e s')"
      using r that unsent_response [OF assms(2), of s' bs] by (simp add: sent_on_exit_def handle_error_def)
    then show ?thesis by (simp add: unsent_def sent_on_exit_def)
  qed
  from r err req show ?thesis
    by (cases r) (auto simp: answer_request_def sent_on_exit_def)
qed

section \<open>What the backup makes of it\<close>

lemma handle_request_keys:
  assumes "rs_inv s" and "rs_inv b" and "key_states (access_manager s) = key_states (access_manager b)"
    and "de h = de h'"
  shows "key_states (access_manager (snd (handle_request h tok data s))) =
     key_states (access_manager (snd (handle_request h' tok' data b)))"
proof (cases "de h data")
  case (Ok m)
  have "am_inv (access_manager s)" "am_inv (access_manager b)"
    using assms(1,2) by (auto simp: rs_inv_def intro: am_reachable_inv)
  from handle_message_keys [OF this assms(3), of h m h'] Ok assms(4)
  show ?thesis
    using after_parse_keys [of h m s tok data] after_parse_keys [of h' m b tok' data]
    by (simp add: handle_request_parse parse_logged_def from_slice_def same_keys_def)
qed (use assms(3,4) in \<open>simp_all add: handle_request_parse parse_logged_def from_slice_def\<close>)

lemma arrive_handled:
  assumes "rs_inv b" and "token_stream_map b (primary_token b) = Some st" and "incoming st = []"
    and "data \<noteq> []" and "length data \<le> 256"
  shows "handle_data h (primary_token b) (arrive (primary_token b) data b) =
     answer_request h (primary_token b) data b"
proof -
  have "primary_token b \<noteq> backup_token b" using assms(1) by (simp add: rs_inv_def)
  moreover have "st\<lparr>incoming := []\<rparr> = st" using assms(3) by (cases st) simp
  then have "b\<lparr>token_stream_map := (token_stream_map b)(primary_token b \<mapsto> st\<lparr>incoming := []\<rparr>)\<rparr> = b"
    using assms(2) by (simp add: fun_upd_idem)
  ultimately show ?thesis
    using assms(2-5) by (simp add: handle_data_def arrive_def stream_read_def Let_def)
qed

text \<open>
  C8: The backup takes over with the locks of the primary. A client of a primary registry sends a
  request, and the backup accepts what it is sent. Either the request is handled: the primary then
  writes the very bytes of the request to the backup and ends its process; and a backup that had the
  same key states has them again once it has handled these bytes, which arrive on the stream of
  the primary, with its own iteration order, clients and failures, the queues of the keys included.
  Or the request is not handled, and the backup is told nothing, even if the primary changed a lock
  before the request failed.
\<close>

theorem backup_mirrors_request:
  assumes "rs_reachable s" and "json_total (ser h) (de h)"
    and "backup_stream s = Some bs" and "write_plan bs = []"
    and "token_stream_map s tok = Some st" and "tok \<noteq> backup_token s"
    and "incoming st = Inr data # later" and "data \<noteq> []" and "length data \<le> 256"
    and "handle_data h tok s = (r, s')"
    and "rs_reachable b" and "token_stream_map b (primary_token b) = Some pst" and "incoming pst = []"
    and "key_states (access_manager b) = key_states (access_manager s)" and "de h' = de h"
  shows "if r = Exit 0
     then backup_stream s' = Some (bs\<lparr>sent := sent bs @ data\<rparr>) \<and>
       key_states (access_manager (snd (handle_data h' (primary_token b) (arrive (primary_token b) data b)))) =
         key_states (access_manager s')
     else backup_stream s' = Some bs"
proof -
  let ?s = "s\<lparr>token_stream_map := (token_stream_map s)(tok \<mapsto> st\<lparr>incoming := later\<rparr>)\<rparr>"
  have inv: "rs_inv ?s"
    using rs_inv_footprint [OF rs_reachable_inv [OF assms(1)] footprint_stream [OF assms(5)]] .
  have binv: "rs_inv b" by (rule rs_reachable_inv [OF assms(11)])
  have "request_counter ?s = 0"
    using rs_reachable_fresh [OF assms(1)] assms(3) by (simp add: fresh_primary_def)
  with sent_answer [OF inv assms(2), of bs data tok] assms(3,4)
  have sent: "sent_on_exit bs data (answer_request h tok data ?s)" by simp
  have "handle_data h tok s = answer_request h tok data ?s"
    using assms(5-9) by (simp add: handle_data_def stream_read_def Let_def)
  with assms(10) have ans: "answer_request h tok data ?s = (r, s')" by simp
  have "key_states (access_manager s') = key_states (access_manager (snd (handle_request h tok data ?s)))"
    using ans answer_request_effect [of h tok data ?s] by simp
  also have "\<dots> = key_states (access_manager (snd (handle_request h' (primary_token b) data b)))"
    using assms(14,15) by (intro handle_request_keys inv binv) simp_all
  also have "\<dots> = key_states (access_manager (snd (answer_request h' (primary_token b) data b)))"
    by (simp add: answer_request_effect)
  finally show ?thesis
    using sent ans arrive_handled [OF binv assms(12,13,8,9), of h'] by (simp add: sent_on_exit_def)
qed

text \<open>
  The primary of \<open>Registry_Demo\<close>, whose client creates a key, and a backup to which it has connected.
\<close>

theorem backup_mirrors_request_witness:
  "fst (handle_data demo_host (Token 1) demo_primary) = Exit 0 \<and>
   map_option sent (backup_stream (snd (handle_data demo_host (Token 1) demo_primary))) = Some [99, 10, 1] \<and>
   key_states (access_manager (snd (handle_data demo_host (Token 1000) (arrive (Token 1000) [1] demo_lone)))) =
     key_states (access_manager (snd (handle_data demo_host (Token 1) demo_primary)))"
proof -
  have lone: "primary_token demo_lone = Token 1000" "token_stream_map demo_lone (Token 1000) = Some (peer [])"
    "key_states (access_manager demo_lone) = Map.empty"
    by (simp_all add: demo_lone_def demo_new_def connection_eval new_access_manager_def)
  obtain r s' where hd: "handle_data demo_host (Token 1) demo_primary = (r, s')" by fastforce
  have "handle_data demo_host (Token 1) demo_primary =
      answer_request demo_host (Token 1) [1]
        (demo_primary\<lparr>token_stream_map := [Token 1 \<mapsto> (peer [])\<lparr>sent := [67, 10]\<rparr>]\<rparr>)"
    by (simp add: handle_data_def stream_read_def peer_def Let_def)
  then have "fst (handle_data demo_host (Token 1) demo_primary) = Exit 0"
    by (simp add: demo_primary_def demo_new_def peer_def request_eval answer_request_def)
  then show ?thesis
    using backup_mirrors_request [OF demo_primary_reachable _ _ _ _ _ _ _ _ hd
        rs_reachable.event [OF demo_new_reachable demo_lone_event], where st = "(peer [[1]])\<lparr>sent := [67, 10]\<rparr>"
        and data = "[1]" and later = "[]" and bs = "(peer [])\<lparr>sent := [99, 10]\<rparr>" and h' = demo_host and pst = "peer []"]
      hd lone
    by (simp add: peer_def new_access_manager_def)
qed

end
