(* ===== verification/Protocol_Client.thy ===== *)
theory Protocol_Client
  imports Net
begin

text \<open>
  The client library of \<open>src/protocol_client.rs\<close>: it connects to the registry, sends requests,
  reads the answers from a stream of lines, and changes over to the secondary registry when
  the primary one does not respond.

  \<open>receive_message\<close> reads in a loop that need not end, so the functions that use it give \<open>None\<close> when
  they never return, and otherwise the outcome with the client they leave behind. A result of the
  operating system that a call asks for is an argument (\<open>dial\<close>).
\<close>

section \<open>State and errors\<close>

datatype ProtocolClientError =
    ClientIoError io_error
  | ClientSerializationError serde_error
  | RegistryError string
  | UnexpectedResponse
  | WaitError KeyId
  | NoBackupServer

record ProtocolClient =
  is_primary :: bool
  logging :: bool
  primary_server :: SocketAddr
  secondary_server :: SocketAddr
  client_id :: ProcId
  registry_stream :: TcpStream
  curr_data :: "byte list"

type_synonym ('s, 'a) running = "((ProtocolClientError, 'a) outcome \<times> 's) option"

text \<open>A step that may not return, followed by the rest of the function behind a \<open>?\<close>.\<close>

definition then_run ::
  "(('e, 'a) outcome \<times> 's) option \<Rightarrow> ('a \<Rightarrow> 's \<Rightarrow> (('e, 'b) outcome \<times> 's) option) \<Rightarrow>
     (('e, 'b) outcome \<times> 's) option"
where
  "then_run m f =
     (case m of
        None \<Rightarrow> None
      | Some (Ok x, s) \<Rightarrow> f x s
      | Some (Err e, s) \<Rightarrow> Some (Err e, s)
      | Some (Panic p, s) \<Rightarrow> Some (Panic p, s)
      | Some (Exit n, s) \<Rightarrow> Some (Exit n, s))"

lemma then_run_simps [simp]:
  "then_run None f = None"
  "then_run (Some (Ok x, s)) f = f x s"
  "then_run (Some (Err e, s)) f = Some (Err e, s)"
  "then_run (Some (Panic p, s)) f = Some (Panic p, s)"
  "then_run (Some (Exit n, s)) f = Some (Exit n, s)"
  by (simp_all add: then_run_def)

text \<open>
  What \<open>TcpStream::connect\<close> and the two calls that set the timeouts of the new stream give.
\<close>

record dial =
  connection :: "(io_error, TcpStream) outcome"
  read_timeout :: "(io_error, unit) outcome"
  write_timeout :: "(io_error, unit) outcome"

section \<open>Receiving a message\<close>

text \<open>
  The loop: 32 bytes at a time, until a chunk has a newline. A read at the end of the stream gives
  no bytes and no error. The buffer is filled with zeros, which are not newlines, so only the
  bytes that were read matter.
\<close>

type_synonym line_state = "TcpStream \<times> byte list"

partial_function (option) read_lines :: "TcpStream \<Rightarrow> byte list \<Rightarrow>
    ((io_error, unit) outcome \<times> line_state) option" where
  "read_lines stream held =
     (case stream_read 32 stream of
        (Ok bytes, stream') \<Rightarrow>
          if newline \<in> set bytes then Some (Ok (), stream', held @ bytes)
          else read_lines stream' (held @ bytes)
      | (Err e, stream') \<Rightarrow> Some (Err e, stream', held)
      | (Panic p, stream') \<Rightarrow> Some (Panic p, stream', held)
      | (Exit n, stream') \<Rightarrow> Some (Exit n, stream', held))"

text \<open>
  The line at the front of the data, the data behind its newline, and the message in the line.
  The arguments of two log records are an \<open>unwrap\<close> of \<open>from_utf8\<close>.
\<close>

definition parse_line :: "host \<Rightarrow> byte list \<Rightarrow> (ProtocolClientError, Message) outcome" where
  "parse_line h line =
     (if debug_on h \<and> \<not> utf8_valid line then Panic UnwrapErr
      else case from_slice (de h) line of
        Err e \<Rightarrow> if error_on h \<and> \<not> utf8_valid line then Panic UnwrapErr
                 else Err (ClientSerializationError e)
      | r \<Rightarrow> map_err ClientSerializationError r)"

definition take_line :: "host \<Rightarrow> line_state \<Rightarrow> (ProtocolClientError, Message) outcome \<times> line_state" where
  "take_line h st =
     (case st of (stream, held) \<Rightarrow>
        if newline \<notin> set held then (Err UnexpectedResponse, stream, held)
        else (parse_line h (takeWhile (\<lambda>c. c \<noteq> newline) held),
              stream, tl (dropWhile (\<lambda>c. c \<noteq> newline) held)))"

definition receive_message :: "host \<Rightarrow> line_state \<Rightarrow> (line_state, Message) running" where
  "receive_message h st =
     then_run (map_option (apfst (map_err ClientIoError)) (read_lines (fst st) (snd st)))
       (\<lambda>_ st. Some (take_line h st))"

section \<open>The connection\<close>

definition registry_handle_connection :: "host \<Rightarrow> line_state \<Rightarrow> (line_state, ProcId) running" where
  "registry_handle_connection h st =
     then_run (receive_message h st) (\<lambda>m st.
       case m of
         Registry (Connection proc_id) \<Rightarrow> Some (Ok proc_id, st)
       | _ \<Rightarrow> Some (Err UnexpectedResponse, st))"

text \<open>A method that reads from the stream of the client, and keeps its data in \<open>curr_data\<close>.\<close>

definition with_lines ::
  "(line_state \<Rightarrow> (line_state, 'a) running) \<Rightarrow> ProtocolClient \<Rightarrow> (ProtocolClient, 'a) running"
where
  "with_lines m c =
     map_option (\<lambda>(r, stream, held). (r, c\<lparr>registry_stream := stream, curr_data := held\<rparr>))
       (m (registry_stream c, curr_data c))"

text \<open>
  \<open>new\<close>: the secondary registry is tried when the primary one refuses, resets or does not answer.
\<close>

definition new_protocol_client ::
  "host \<Rightarrow> SocketAddr \<Rightarrow> SocketAddr \<Rightarrow> dial \<Rightarrow> dial \<Rightarrow>
     (ProtocolClientError, ProtocolClient) outcome option"
where
  "new_protocol_client h primary secondary first second =
     (let connect = (\<lambda>primary_up d.
        case map_err ClientIoError (connection d) of
          Ok stream \<Rightarrow>
            (case map_err ClientIoError (read_timeout d) of
               Ok _ \<Rightarrow>
                 (case map_err ClientIoError (write_timeout d) of
                    Ok _ \<Rightarrow>
                      map_option (\<lambda>(r, stream', held).
                        map_ok (\<lambda>proc_id.
                          \<lparr>is_primary = primary_up, logging = True, primary_server = primary,
                           secondary_server = secondary, client_id = proc_id,
                           registry_stream = stream', curr_data = held\<rparr>) r)
                        (registry_handle_connection h (stream, []))
                  | Err e \<Rightarrow> Some (Err e) | Panic p \<Rightarrow> Some (Panic p) | Exit n \<Rightarrow> Some (Exit n))
             | Err e \<Rightarrow> Some (Err e) | Panic p \<Rightarrow> Some (Panic p) | Exit n \<Rightarrow> Some (Exit n))
        | Err e \<Rightarrow> Some (Err e) | Panic p \<Rightarrow> Some (Panic p) | Exit n \<Rightarrow> Some (Exit n))
      in case connection first of
           Err e \<Rightarrow>
             if kind e = ConnectionRefused \<or> kind e = ConnectionReset \<or> kind e = TimedOut
             then connect False second
             else Some (Err (ClientIoError e))
         | _ \<Rightarrow> connect True first)"

text \<open>
  The change to the secondary registry. The outcome of \<open>registry_handle_connection\<close> is only logged.
\<close>

definition switch_to_secondary :: "host \<Rightarrow> dial \<Rightarrow> ProtocolClient \<Rightarrow> (ProtocolClient, unit) running" where
  "switch_to_secondary h d c =
     (case map_err ClientIoError (connection d) of
        Ok stream \<Rightarrow>
          (case with_lines (registry_handle_connection h) (c\<lparr>registry_stream := stream\<rparr>) of
             None \<Rightarrow> None
           | Some (Panic p, c) \<Rightarrow> Some (Panic p, c)
           | Some (Exit n, c) \<Rightarrow> Some (Exit n, c)
           | Some (_, c) \<Rightarrow>
               then_run (Some (map_err ClientIoError (read_timeout d), c)) (\<lambda>_ c.
                 Some (map_err ClientIoError (write_timeout d), c)))
      | Err e \<Rightarrow> Some (Err e, c) | Panic p \<Rightarrow> Some (Panic p, c) | Exit n \<Rightarrow> Some (Exit n, c))"

section \<open>Requests\<close>

definition write_registry :: "byte list \<Rightarrow> ProtocolClient \<Rightarrow> (ProtocolClient, unit) running" where
  "write_registry data c =
     (let (r, stream) = stream_write_all data (registry_stream c)
      in Some (map_err ClientIoError r, c\<lparr>registry_stream := stream\<rparr>))"

text \<open>The retry on the secondary registry, after a failed write or a failed \<open>peek\<close>.\<close>

definition retry_on_secondary ::
  "host \<Rightarrow> dial \<Rightarrow> byte list \<Rightarrow> ProtocolClient \<Rightarrow> (ProtocolClient, unit) running"
where
  "retry_on_secondary h d data c =
     (if \<not> is_primary c then Some (Err NoBackupServer, c)
      else then_run (switch_to_secondary h d c) (\<lambda>_. write_registry data))"

definition registry_send_request ::
  "host \<Rightarrow> dial \<Rightarrow> KeyId \<Rightarrow> RequestType \<Rightarrow> ProtocolClient \<Rightarrow> (ProtocolClient, unit) running"
where
  "registry_send_request h d key_id request_type c =
     (case map_err ClientSerializationError
             (to_vec (ser h) (registry_request key_id (client_id c) request_type)) of
        Ok data \<Rightarrow>
          (case stream_write_all data (registry_stream c) of
             (Err _, stream) \<Rightarrow> retry_on_secondary h d data (c\<lparr>registry_stream := stream\<rparr>)
           | (Ok _, stream) \<Rightarrow>
               (case stream_peek 1 stream of
                  (Ok _, stream) \<Rightarrow> Some (Ok (), c\<lparr>registry_stream := stream\<rparr>)
                | (Err _, stream) \<Rightarrow> retry_on_secondary h d data (c\<lparr>registry_stream := stream\<rparr>)
                | (Panic p, stream) \<Rightarrow> Some (Panic p, c\<lparr>registry_stream := stream\<rparr>)
                | (Exit n, stream) \<Rightarrow> Some (Exit n, c\<lparr>registry_stream := stream\<rparr>))
           | (Panic p, stream) \<Rightarrow> Some (Panic p, c\<lparr>registry_stream := stream\<rparr>)
           | (Exit n, stream) \<Rightarrow> Some (Exit n, c\<lparr>registry_stream := stream\<rparr>))
      | Err e \<Rightarrow> Some (Err e, c) | Panic p \<Rightarrow> Some (Panic p, c) | Exit n \<Rightarrow> Some (Exit n, c))"

text \<open>Every failure to receive a response, an I/O error included, becomes \<open>UnexpectedResponse\<close>.\<close>

definition registry_handle_response :: "host \<Rightarrow> ProtocolClient \<Rightarrow> (ProtocolClient, RegistryResponse) running"
where
  "registry_handle_response h c =
     map_option (\<lambda>(r, c).
       (case r of
          Ok (Registry (Response resp)) \<Rightarrow>
            (case resp of
               Error err \<Rightarrow> Err (RegistryError err)
             | Wait key_id \<Rightarrow> Err (WaitError key_id)
             | _ \<Rightarrow> Ok resp)
        | Panic p \<Rightarrow> Panic p
        | Exit n \<Rightarrow> Exit n
        | _ \<Rightarrow> Err UnexpectedResponse, c))
       (with_lines (receive_message h) c)"

definition registry_await_read :: "host \<Rightarrow> ProtocolClient \<Rightarrow> (ProtocolClient, KeyId \<times> SocketAddr) running"
where
  "registry_await_read h c =
     then_run (registry_handle_response h c) (\<lambda>r c.
       case r of
         Holder key_id a \<Rightarrow> Some (Ok (key_id, a), c)
       | _ \<Rightarrow> Some (Err UnexpectedResponse, c))"

definition registry_await_write :: "host \<Rightarrow> ProtocolClient \<Rightarrow> (ProtocolClient, KeyId) running" where
  "registry_await_write h c =
     then_run (registry_handle_response h c) (\<lambda>r c.
       case r of
         Success key_id \<Rightarrow> Some (Ok key_id, c)
       | _ \<Rightarrow> Some (Err UnexpectedResponse, c))"

definition registry_expect_success :: "host \<Rightarrow> KeyId \<Rightarrow> ProtocolClient \<Rightarrow> (ProtocolClient, unit) running"
where
  "registry_expect_success h key_id c =
     then_run (registry_handle_response h c) (\<lambda>r c.
       case r of
         Success resp_key_id \<Rightarrow>
           if key_id = resp_key_id then Some (Ok (), c) else Some (Err UnexpectedResponse, c)
       | _ \<Rightarrow> Some (Err UnexpectedResponse, c))"

definition registry_create :: "host \<Rightarrow> dial \<Rightarrow> KeyId \<Rightarrow> ProtocolClient \<Rightarrow> (ProtocolClient, unit) running" where
  "registry_create h d key_id c =
     then_run (registry_send_request h d key_id Create c) (\<lambda>_. registry_expect_success h key_id)"

definition registry_delete :: "host \<Rightarrow> dial \<Rightarrow> KeyId \<Rightarrow> ProtocolClient \<Rightarrow> (ProtocolClient, unit) running" where
  "registry_delete h d key_id c =
     then_run (registry_send_request h d key_id Delete c) (\<lambda>_. registry_expect_success h key_id)"

definition registry_release :: "host \<Rightarrow> dial \<Rightarrow> KeyId \<Rightarrow> ProtocolClient \<Rightarrow> (ProtocolClient, unit) running" where
  "registry_release h d key_id c =
     then_run (registry_send_request h d key_id Release c) (\<lambda>_. registry_expect_success h key_id)"

definition registry_read :: "host \<Rightarrow> dial \<Rightarrow> KeyId \<Rightarrow> ProtocolClient \<Rightarrow> (ProtocolClient, unit) running" where
  "registry_read h d key_id = registry_send_request h d key_id Read"

definition registry_write :: "host \<Rightarrow> dial \<Rightarrow> KeyId \<Rightarrow> ProtocolClient \<Rightarrow> (ProtocolClient, unit) running" where
  "registry_write h d key_id = registry_send_request h d key_id Write"

text \<open>
  The two calls that wait for a grant. The key of \<open>Wait\<close> shadows the requested one in the comparison
  with the key of the grant.
\<close>

definition registry_read_sync ::
  "host \<Rightarrow> dial \<Rightarrow> KeyId \<Rightarrow> ProtocolClient \<Rightarrow> (ProtocolClient, SocketAddr) running"
where
  "registry_read_sync h d key_id c =
     then_run (registry_read h d key_id c) (\<lambda>_ c.
     then_run
       (case registry_await_read h c of
          Some (Err (WaitError key_id), c) \<Rightarrow>
            then_run (registry_await_read h c) (\<lambda>res c.
              if key_id \<noteq> fst res then Some (Err UnexpectedResponse, c) else Some (Ok res, c))
        | res \<Rightarrow> res)
       (\<lambda>res c. Some (Ok (snd res), c)))"

definition registry_write_sync ::
  "host \<Rightarrow> dial \<Rightarrow> KeyId \<Rightarrow> ProtocolClient \<Rightarrow> (ProtocolClient, unit) running"
where
  "registry_write_sync h d key_id c =
     then_run (registry_write h d key_id c) (\<lambda>_ c.
     then_run
       (case registry_await_write h c of
          Some (Err (WaitError key_id), c) \<Rightarrow>
            then_run (registry_await_write h c) (\<lambda>res_key_id c.
              if key_id \<noteq> res_key_id then Some (Err UnexpectedResponse, c) else Some (Ok res_key_id, c))
        | res \<Rightarrow> res)
       (\<lambda>_ c. Some (Ok (), c)))"

definition registry_stop_server :: "host \<Rightarrow> ProtocolClient \<Rightarrow> (ProtocolClient, unit) running" where
  "registry_stop_server h c =
     (case map_err ClientSerializationError (to_vec (ser h) registry_stop) of
        Ok data \<Rightarrow> write_registry data c
      | Err e \<Rightarrow> Some (Err e, c) | Panic p \<Rightarrow> Some (Panic p, c) | Exit n \<Rightarrow> Some (Exit n, c))"

text \<open>
  The macro \<open>handle_wait_error!\<close>: the given code runs when the outcome is a \<open>WaitError\<close>, and any other
  outcome, errors included, is dropped. A \<open>?\<close> in the code returns from the function around it.
\<close>

definition handle_wait_error ::
  "('s, 'a) running \<Rightarrow> ('s \<Rightarrow> ('s, unit) running) \<Rightarrow> ('s, unit) running"
where
  "handle_wait_error res logic =
     (case res of
        None \<Rightarrow> None
      | Some (Err (WaitError _), s) \<Rightarrow> logic s
      | Some (Panic p, s) \<Rightarrow> Some (Panic p, s)
      | Some (Exit n, s) \<Rightarrow> Some (Exit n, s)
      | Some (_, s) \<Rightarrow> Some (Ok (), s))"

section \<open>Reading the data from a peer\<close>

text \<open>
  One request on a stream of its own, and one read of at most 256 bytes. The connection is
  dropped at the end, so only its outcome is left.
\<close>

definition p2p_read ::
  "host \<Rightarrow> (io_error, TcpStream) outcome \<Rightarrow> KeyId \<Rightarrow> (ProtocolClientError, string) outcome \<times> TcpStream option"
where
  "p2p_read h conn key_id =
     (case map_err ClientIoError conn of
        Ok stream \<Rightarrow>
          (case map_err ClientSerializationError (to_vec (ser h) (Data (DataRequest key_id))) of
             Ok data \<Rightarrow>
               apsnd Some
                 (and_then (\<lambda>st. apfst (map_err ClientIoError) (stream_write_all data st)) (\<lambda>_.
                  and_then (\<lambda>st. apfst (map_err ClientIoError) (stream_read 256 st)) (\<lambda>bytes st.
                    if debug_on h \<and> \<not> utf8_valid bytes then (Panic UnwrapErr, st)
                    else
                      (case map_err ClientSerializationError (from_slice (de h) bytes) of
                         Ok (Data (DataResponse text)) \<Rightarrow> (Ok text, st)
                       | Ok _ \<Rightarrow> (Err UnexpectedResponse, st)
                       | Err e \<Rightarrow> (Err e, st)
                       | Panic p \<Rightarrow> (Panic p, st)
                       | Exit n \<Rightarrow> (Exit n, st)))) stream)
           | Err e \<Rightarrow> (Err e, Some stream)
           | Panic p \<Rightarrow> (Panic p, Some stream)
           | Exit n \<Rightarrow> (Exit n, Some stream))
      | Err e \<Rightarrow> (Err e, None)
      | Panic p \<Rightarrow> (Panic p, None)
      | Exit n \<Rightarrow> (Exit n, None))"

end
