(* ===== verification/Client_Lines.thy ===== *)
theory Client_Lines
  imports Protocol_Client
begin

text \<open>
  What the reading loop of the client does with a stream of lines, however the network cuts it
  into chunks: it returns the next line when the stream has one, keeps what it read when the
  stream fails, and never returns when the stream ends before a newline.
\<close>

section \<open>Streams without errors\<close>

text \<open>The next chunks are all there is before the end of the stream.\<close>

definition only_bytes :: "TcpStream \<Rightarrow> bool" where
  "only_bytes st \<longleftrightarrow> list_all (\<lambda>x. \<not> isl x) (incoming st)"

definition bytes_of :: "TcpStream \<Rightarrow> byte list" where
  "bytes_of st = concat (map projr (incoming st))"

definition reads_left :: "TcpStream \<Rightarrow> nat" where
  "reads_left st = sum_list (map (\<lambda>x. Suc (length (projr x))) (incoming st))"

lemma read_chunk:
  assumes "only_bytes st" and "incoming st \<noteq> []" and "0 < n"
  shows "\<exists>bytes st'. stream_read n st = (Ok bytes, st') \<and> length bytes \<le> n \<and>
     bytes_of st = bytes @ bytes_of st' \<and> only_bytes st' \<and> at_end st' = at_end st \<and>
     reads_left st' < reads_left st"
proof -
  obtain bs later where inc: "incoming st = Inr bs # later"
    using assms(1,2) by (cases "incoming st"; cases "hd (incoming st)") (auto simp: only_bytes_def)
  show ?thesis
    using assms inc
    by (intro exI [of _ "take n bs"]
          exI [of _ "st\<lparr>incoming := (if length bs \<le> n then later else Inr (drop n bs) # later)\<rparr>"])
       (auto simp: stream_read_def only_bytes_def bytes_of_def reads_left_def)
qed

lemma read_at_end:
  "incoming st = [] \<Longrightarrow> stream_read n st = (case at_end st of None \<Rightarrow> Ok [] | Some e \<Rightarrow> Err e, st)"
  by (simp add: stream_read_def split: option.split)

section \<open>The loop\<close>

lemma read_lines_step:
  assumes "stream_read 32 st = (Ok bytes, st')"
  shows "read_lines st held =
     (if newline \<in> set bytes then Some (Ok (), st', held @ bytes) else read_lines st' (held @ bytes))"
  by (subst read_lines.simps) (simp add: assms)

text \<open>A newline ahead: the loop stops behind the chunk that has it.\<close>

lemma read_lines_newline:
  assumes "only_bytes st" and "newline \<in> set (bytes_of st)"
  shows "\<exists>before chunk st'. read_lines st held = Some (Ok (), st', held @ before @ chunk) \<and>
     bytes_of st = before @ chunk @ bytes_of st' \<and> newline \<notin> set before \<and> newline \<in> set chunk \<and>
     length chunk \<le> 32 \<and> only_bytes st' \<and> at_end st' = at_end st"
  using assms
proof (induction "reads_left st" arbitrary: st held rule: less_induct)
  case less
  have some: "incoming st \<noteq> []" using less.prems(2) by (auto simp: bytes_of_def)
  obtain bytes st' where rd: "stream_read 32 st = (Ok bytes, st')" and len: "length bytes \<le> 32"
    and split: "bytes_of st = bytes @ bytes_of st'" and rest: "only_bytes st'" "at_end st' = at_end st"
    and smaller: "reads_left st' < reads_left st"
    using read_chunk [OF less.prems(1) some, of 32] by auto
  show ?case
  proof (cases "newline \<in> set bytes")
    case True
    then show ?thesis
      using read_lines_step [OF rd, of held] len split rest
      by (intro exI [of _ "[]"] exI [of _ bytes] exI [of _ st']) simp
  next
    case False
    with less.prems(2) split have "newline \<in> set (bytes_of st')" by simp
    from less.hyps [OF smaller rest(1) this, of "held @ bytes"] obtain before chunk st''
      where "read_lines st' (held @ bytes) = Some (Ok (), st'', (held @ bytes) @ before @ chunk)"
        and "bytes_of st' = before @ chunk @ bytes_of st''" and "newline \<notin> set before"
        and "newline \<in> set chunk" and "length chunk \<le> 32" and "only_bytes st''"
        and "at_end st'' = at_end st'"
      by blast
    then show ?thesis
      using read_lines_step [OF rd, of held] False split rest
      by (intro exI [of _ "bytes @ before"] exI [of _ chunk] exI [of _ st'']) simp
  qed
qed

text \<open>No newline ahead and an error at the end, such as a time-out: the data is kept.\<close>

lemma read_lines_error:
  assumes "only_bytes st" and "newline \<notin> set (bytes_of st)" and "at_end st = Some e"
  shows "\<exists>st'. read_lines st held = Some (Err e, st', held @ bytes_of st) \<and> incoming st' = [] \<and>
     at_end st' = Some e"
  using assms
proof (induction "reads_left st" arbitrary: st held rule: less_induct)
  case less
  show ?case
  proof (cases "incoming st = []")
    case True
    with less.prems(3) show ?thesis
      by (subst read_lines.simps) (simp add: read_at_end bytes_of_def)
  next
    case False
    obtain bytes st' where rd: "stream_read 32 st = (Ok bytes, st')"
      and split: "bytes_of st = bytes @ bytes_of st'" and rest: "only_bytes st'" "at_end st' = at_end st"
      and smaller: "reads_left st' < reads_left st"
      using read_chunk [OF less.prems(1) False, of 32] by auto
    from less.prems(2,3) split rest have "newline \<notin> set (bytes_of st')" "at_end st' = Some e" by auto
    from less.hyps [OF smaller rest(1) this, of "held @ bytes"] less.prems(2) show ?thesis
      using read_lines_step [OF rd, of held] split by simp
  qed
qed

text \<open>The peer closed the stream and no newline is ahead: the loop never ends.\<close>

definition ends_silently :: "TcpStream \<Rightarrow> bool" where
  "ends_silently st \<longleftrightarrow> only_bytes st \<and> newline \<notin> set (bytes_of st) \<and> at_end st = None"

lemma ends_silently_step:
  assumes "ends_silently st"
  shows "\<exists>bytes st'. stream_read 32 st = (Ok bytes, st') \<and> newline \<notin> set bytes \<and> ends_silently st'"
proof (cases "incoming st = []")
  case True
  with assms show ?thesis by (simp add: read_at_end ends_silently_def)
next
  case False
  with assms read_chunk [of st 32] show ?thesis by (fastforce simp: ends_silently_def)
qed

lemma read_lines_returns:
  assumes "read_lines st held = Some r"
  shows "\<not> ends_silently st"
proof (rule read_lines.raw_induct [where P = "\<lambda>st held r. \<not> ends_silently st", OF _ assms])
  fix loop :: "TcpStream \<Rightarrow> byte list \<Rightarrow> ((io_error, unit) outcome \<times> line_state) option"
  fix st held r
  assume IH: "\<And>st held r. loop st held = Some r \<Longrightarrow> \<not> ends_silently st"
    and body: "(case stream_read 32 st of
        (Ok bytes, stream') \<Rightarrow>
          if newline \<in> set bytes then Some (Ok (), stream', held @ bytes)
          else loop stream' (held @ bytes)
      | (Err e, stream') \<Rightarrow> Some (Err e, stream', held)
      | (Panic p, stream') \<Rightarrow> Some (Panic p, stream', held)
      | (Exit n, stream') \<Rightarrow> Some (Exit n, stream', held)) = Some r"
  show "\<not> ends_silently st"
  proof
    assume "ends_silently st"
    from ends_silently_step [OF this] obtain bytes st'
      where "stream_read 32 st = (Ok bytes, st')" "newline \<notin> set bytes" "ends_silently st'"
      by blast
    with body IH show False by simp
  qed
qed

lemma read_lines_closed: "ends_silently st \<Longrightarrow> read_lines st held = None"
  using read_lines_returns by (cases "read_lines st held") blast+

text \<open>Reading writes nothing.\<close>

lemma stream_read_sent: "sent (snd (stream_read n st)) = sent st"
  by (simp add: stream_read_def split: list.split sum.split option.split)

lemma read_lines_sent:
  assumes "read_lines st held = Some (r, st', held')"
  shows "sent st' = sent st"
proof -
  have "\<forall>r st' held'. out = (r, st', held') \<longrightarrow> sent st' = sent st"
    if "read_lines st held = Some out" for st held out
  proof (rule read_lines.raw_induct
      [where P = "\<lambda>st held out. \<forall>r st' held'. out = (r, st', held') \<longrightarrow> sent st' = sent st", OF _ that])
    fix loop :: "TcpStream \<Rightarrow> byte list \<Rightarrow> ((io_error, unit) outcome \<times> line_state) option"
    fix st held out
    assume IH: "\<And>st held out. loop st held = Some out \<Longrightarrow>
        \<forall>r st' held'. out = (r, st', held') \<longrightarrow> sent st' = sent st"
      and body: "(case stream_read 32 st of
          (Ok bytes, stream') \<Rightarrow>
            if newline \<in> set bytes then Some (Ok (), stream', held @ bytes)
            else loop stream' (held @ bytes)
        | (Err e, stream') \<Rightarrow> Some (Err e, stream', held)
        | (Panic p, stream') \<Rightarrow> Some (Panic p, stream', held)
        | (Exit n, stream') \<Rightarrow> Some (Exit n, stream', held)) = Some out"
    obtain o1 st1 where rd: "stream_read 32 st = (o1, st1)" by fastforce
    then have "sent st1 = sent st" using stream_read_sent [of 32 st] by simp
    with body rd IH show "\<forall>r st' held'. out = (r, st', held') \<longrightarrow> sent st' = sent st"
      by (cases o1) (auto split: if_splits)
  qed
  with assms show ?thesis by blast
qed

lemma response_sent:
  assumes "registry_handle_response h c = Some (r, c')"
  shows "sent (registry_stream c') = sent (registry_stream c)"
proof -
  from assms obtain q st held where recv: "receive_message h (registry_stream c, curr_data c) = Some (q, st, held)"
    and c': "c' = c\<lparr>registry_stream := st, curr_data := held\<rparr>"
    by (auto simp: registry_handle_response_def with_lines_def)
  from recv obtain r0 st0 held0 where "read_lines (registry_stream c) (curr_data c) = Some (r0, st0, held0)"
    and "st = st0"
    by (cases "read_lines (registry_stream c) (curr_data c)")
       (auto simp: receive_message_def then_run_def take_line_def split: outcome.splits if_splits)
  with read_lines_sent c' show ?thesis by auto
qed

section \<open>The next line\<close>

text \<open>
  The next line is \<open>line\<close>, and the next newline behind it comes after at least 31 other bytes, so
  that one chunk never has both. Then the line is parsed, and nothing behind it is lost.
\<close>

lemma receive_line:
  assumes "only_bytes st" and "newline \<notin> set held" and "newline \<notin> set line"
    and "held @ bytes_of st = line @ newline # rest" and "newline \<notin> set (take 31 rest)"
  shows "\<exists>st' held'. receive_message h (st, held) = Some (parse_line h line, st', held') \<and>
     held' @ bytes_of st' = rest \<and> newline \<notin> set held' \<and> only_bytes st' \<and> at_end st' = at_end st"
proof -
  have "newline \<in> set (held @ bytes_of st)" unfolding assms(4) by simp
  with assms(2) have "newline \<in> set (bytes_of st)" by simp
  from read_lines_newline [OF assms(1) this, of held] obtain before chunk st'
    where rl: "read_lines st held = Some (Ok (), st', held @ before @ chunk)"
      and split: "bytes_of st = before @ chunk @ bytes_of st'" and no: "newline \<notin> set before"
      and nl: "newline \<in> set chunk" and len: "length chunk \<le> 32" and rest: "only_bytes st'" "at_end st' = at_end st"
    by blast
  from nl obtain c1 c2 where chunk: "chunk = c1 @ newline # c2" "newline \<notin> set c1"
    by (meson split_list_first)
  have eq: "(held @ before @ c1) @ newline # (c2 @ bytes_of st') = line @ newline # rest"
    using assms(4) split chunk by simp
  have pre: "newline \<notin> set (held @ before @ c1)" using assms(2) no chunk by simp
  have tw: "takeWhile (\<lambda>c. c \<noteq> newline) (xs @ newline # ys) = xs"
    "dropWhile (\<lambda>c. c \<noteq> newline) (xs @ newline # ys) = newline # ys" if "newline \<notin> set xs" for xs ys
    using that by (induction xs) auto
  have line: "held @ before @ c1 = line"
    using arg_cong [OF eq, of "takeWhile (\<lambda>c. c \<noteq> newline)"] tw(1) [OF pre] tw(1) [OF assms(3)] by simp
  with eq have tail: "rest = c2 @ bytes_of st'" by simp
  have "length c2 \<le> 31" using len chunk by simp
  then have "newline \<notin> set c2" using assms(5) tail by (auto simp: take_append)
  moreover have "take_line h (st', held @ before @ chunk) = (parse_line h line, st', c2)"
    using tw [OF assms(3), of c2] line [symmetric] chunk by (simp add: take_line_def)
  ultimately show ?thesis
    using rl tail rest by (auto simp: receive_message_def)
qed

text \<open>A number of messages, one call of \<open>receive_message\<close> for each.\<close>

fun receive_messages :: "host \<Rightarrow> nat \<Rightarrow> line_state \<Rightarrow> (line_state, Message list) running" where
  "receive_messages h 0 st = Some (Ok [], st)"
| "receive_messages h (Suc n) st =
     then_run (receive_message h st) (\<lambda>m st.
     then_run (receive_messages h n st) (\<lambda>ms st. Some (Ok (m # ms), st)))"

lemma parse_line_frame:
  assumes "json_codec (ser h) (de h)" and "to_vec (ser h) m = Ok frame" and "debug_on h \<longrightarrow> utf8_valid (butlast frame)"
  shows "\<exists>json. frame = json @ [newline] \<and> newline \<notin> set json \<and> parse_line h json = Ok m"
  using assms by (cases "ser h m") (auto simp: json_codec_def to_vec_def parse_line_def from_slice_def)

text \<open>The newline of a long frame is far away.\<close>

lemma long_frame_far:
  assumes codec: "json_codec (ser h) (de h)"
    and "list_all2 (\<lambda>m frame. to_vec (ser h) m = Ok frame) ms frames"
    and "\<forall>frame \<in> set frames. 32 \<le> length frame"
  shows "newline \<notin> set (take 31 (concat frames))"
proof (cases frames)
  case Nil
  then show ?thesis by simp
next
  case (Cons f fs)
  with assms(2) obtain m where "to_vec (ser h) m = Ok f" by (cases ms) auto
  then obtain json where f: "f = json @ [newline]" "newline \<notin> set json"
    using codec by (cases "ser h m") (auto simp: json_codec_def to_vec_def)
  have "31 \<le> length json" using assms(3) Cons f by simp
  with f Cons show ?thesis by (auto dest: in_set_takeD)
qed

lemma receive_frames:
  assumes codec: "json_codec (ser h) (de h)"
    and "list_all2 (\<lambda>m frame. to_vec (ser h) m = Ok frame) ms frames"
    and "\<forall>frame \<in> set (tl frames). 32 \<le> length frame"
    and "\<forall>frame \<in> set frames. debug_on h \<longrightarrow> utf8_valid (butlast frame)"
    and "only_bytes st" and "newline \<notin> set held" and "held @ bytes_of st = concat frames"
  shows "\<exists>st'. receive_messages h (length ms) (st, held) = Some (Ok ms, st', []) \<and> bytes_of st' = [] \<and>
     at_end st' = at_end st"
  using assms(2-7)
proof (induction ms frames arbitrary: st held rule: list_all2_induct)
  case Nil
  then show ?case by auto
next
  case (Cons m ms frame frames)
  have "debug_on h \<longrightarrow> utf8_valid (butlast frame)" using Cons.prems(2) by simp
  from parse_line_frame [OF codec Cons.hyps(1) this] obtain json
    where json: "frame = json @ [newline]" "newline \<notin> set json" "parse_line h json = Ok m"
    by blast
  have "\<forall>frame \<in> set frames. 32 \<le> length frame" using Cons.prems(1) by simp
  then have far: "newline \<notin> set (take 31 (concat frames))"
    by (rule long_frame_far [OF codec Cons.hyps(2)])
  have "held @ bytes_of st = json @ newline # concat frames" using Cons.prems(5) json by simp
  from receive_line [OF Cons.prems(3,4) json(2) this far, of h] json(3) obtain st' held'
    where rm: "receive_message h (st, held) = Some (Ok m, st', held')"
      and rest: "held' @ bytes_of st' = concat frames" "newline \<notin> set held'" "only_bytes st'"
        "at_end st' = at_end st"
    by auto
  have "\<forall>frame \<in> set (tl frames). 32 \<le> length frame"
    using Cons.prems(1) by (cases frames) auto
  moreover have "\<forall>frame \<in> set frames. debug_on h \<longrightarrow> utf8_valid (butlast frame)"
    using Cons.prems(2) by simp
  ultimately obtain st'' where "receive_messages h (length ms) (st', held') = Some (Ok ms, st'', [])"
    and "bytes_of st'' = []" and "at_end st'' = at_end st'"
    using Cons.IH [OF _ _ rest(3,2,1)] by blast
  with rm rest(4) show ?case by simp
qed

end
