(* ===== verification/Client_Claims.thy ===== *)
theory Client_Claims
  imports Client_Lines
begin

text \<open>
  The properties of the client library, with witnesses on a small codec.
\<close>

section \<open>One response\<close>

text \<open>How \<open>registry_handle_response\<close> reads a response.\<close>

fun response_result :: "RegistryResponse \<Rightarrow> (ProtocolClientError, RegistryResponse) outcome" where
  "response_result (Error err) = Err (RegistryError err)"
| "response_result (Wait key_id) = Err (WaitError key_id)"
| "response_result r = Ok r"

text \<open>The client has received the bytes \<open>bs\<close>, some of them already read, and no error is ahead.\<close>

definition has_bytes :: "ProtocolClient \<Rightarrow> byte list \<Rightarrow> bool" where
  "has_bytes c bs \<longleftrightarrow> only_bytes (registry_stream c) \<and> newline \<notin> set (curr_data c) \<and>
     curr_data c @ bytes_of (registry_stream c) = bs"

text \<open>The codec reads back the bytes of a message, and if they are logged, they are UTF-8.\<close>

definition frame_of :: "host \<Rightarrow> Message \<Rightarrow> byte list \<Rightarrow> bool" where
  "frame_of h m frame \<longleftrightarrow> json_codec (ser h) (de h) \<and> to_vec (ser h) m = Ok frame \<and>
     (debug_on h \<longrightarrow> utf8_valid (butlast frame))"

lemma handle_response_frame:
  assumes "has_bytes c (frame @ rest)" and "frame_of h (registry_response r) frame"
    and "newline \<notin> set (take 31 rest)"
  shows "\<exists>st held. registry_handle_response h c =
     Some (response_result r, c\<lparr>registry_stream := st, curr_data := held\<rparr>) \<and>
     has_bytes (c\<lparr>registry_stream := st, curr_data := held\<rparr>) rest"
proof -
  from parse_line_frame [of h "registry_response r" frame] assms(2)
  obtain json where json: "frame = json @ [newline]" "newline \<notin> set json"
    "parse_line h json = Ok (registry_response r)"
    by (auto simp: frame_of_def)
  have bs: "only_bytes (registry_stream c)" "newline \<notin> set (curr_data c)"
    "curr_data c @ bytes_of (registry_stream c) = json @ newline # rest"
    using assms(1) json by (simp_all add: has_bytes_def)
  from receive_line [OF bs(1,2) json(2) bs(3) assms(3), of h] json(3) obtain st held
    where "receive_message h (registry_stream c, curr_data c) = Some (Ok (registry_response r), st, held)"
      and "held @ bytes_of st = rest" "newline \<notin> set held" "only_bytes st"
    by auto
  then show ?thesis
    by (intro exI [of _ st] exI [of _ held])
       (cases r; simp add: registry_handle_response_def with_lines_def registry_response_def has_bytes_def)
qed

lemma frame_newline: "frame_of h m frame \<Longrightarrow> 32 \<le> length frame \<Longrightarrow> newline \<notin> set (take 31 (frame @ rest))"
proof -
  assume fr: "frame_of h m frame" and long: "32 \<le> length frame"
  then obtain json where "frame = json @ [newline]" "newline \<notin> set json"
    using parse_line_frame [of h m frame] by (auto simp: frame_of_def)
  with long show ?thesis by (auto dest: in_set_takeD)
qed

section \<open>Receiving\<close>

text \<open>
  C9: Messages are received in order. However the network cuts the bytes of a sequence of messages
  into chunks, as many calls of \<open>receive_message\<close> give exactly these messages and leave
  nothing behind, if every message after the first takes at least 32 bytes, the size of the
  buffer.
\<close>

theorem messages_received_in_order:
  assumes "json_codec (ser h) (de h)"
    and "list_all2 (\<lambda>m frame. to_vec (ser h) m = Ok frame) ms frames"
    and "\<forall>frame \<in> set (tl frames). 32 \<le> length frame"
    and "\<forall>frame \<in> set frames. debug_on h \<longrightarrow> utf8_valid (butlast frame)"
    and "only_bytes st" and "bytes_of st = concat frames"
  shows "\<exists>st'. receive_messages h (length ms) (st, []) = Some (Ok ms, st', []) \<and> bytes_of st' = []"
proof -
  have "newline \<notin> set ([] :: byte list)" "[] @ bytes_of st = concat frames"
    using assms(6) by simp_all
  from receive_frames [OF assms(1-5) this] show ?thesis by blast
qed

text \<open>A codec of four messages: a short line and three long ones.\<close>

definition long_line :: "byte \<Rightarrow> byte list" where
  "long_line b = replicate 31 b"

definition line_ser :: json_writer where
  "line_ser m =
     (if m = registry_connection 7 then Ok [67]
      else if m = registry_response (Success 5) then Ok (long_line 83)
      else if m = registry_response (Wait 5) then Ok (long_line 87)
      else if m = registry_response (Holder 5 (SocketAddrV4 1 2)) then Ok (long_line 72)
      else if m = registry_request 5 7 Read then Ok (long_line 82)
      else Err ''not in the table'')"

definition line_de :: json_reader where
  "line_de bs =
     (let line = (if last bs = newline then butlast bs else bs) in
      if line = [67] then Ok (registry_connection 7)
      else if line = long_line 83 then Ok (registry_response (Success 5))
      else if line = long_line 87 then Ok (registry_response (Wait 5))
      else if line = long_line 72 then Ok (registry_response (Holder 5 (SocketAddrV4 1 2)))
      else if line = long_line 82 then Ok (registry_request 5 7 Read)
      else Err ''no JSON'')"

definition line_host :: host where
  "line_host = \<lparr>ser = line_ser, de = line_de, pick = Min, error_on = True, debug_on = False\<rparr>"

lemma line_host_simps [simp]:
  "ser line_host = line_ser" "de line_host = line_de" "\<not> debug_on line_host"
  by (simp_all add: line_host_def)

lemma long_line_simps [simp]:
  "length (long_line b) = 31" "long_line b \<noteq> []" "last (long_line b) = b"
  "long_line b = long_line b' \<longleftrightarrow> b = b'" "set (long_line b) = {b}"
  by (auto simp: long_line_def)

lemma long_line_short [simp]: "long_line b \<noteq> [x]"
  by (auto dest: arg_cong [of _ _ length])

lemma line_codec: "json_codec line_ser line_de"
  by (auto simp: json_codec_def json_total_def line_ser_def line_de_def message_defs Let_def)

definition chunked :: "byte list list \<Rightarrow> TcpStream" where
  "chunked chunks = \<lparr>incoming = map Inr chunks, at_end = None, write_plan = [], sent = []\<rparr>"

lemma chunked_simps [simp]:
  "only_bytes (chunked chunks)" "bytes_of (chunked chunks) = concat chunks"
  "at_end (chunked chunks) = None" "write_plan (chunked chunks) = []" "sent (chunked chunks) = []"
  "incoming (chunked chunks) = map Inr chunks"
  by (simp_all add: chunked_def only_bytes_def bytes_of_def list_all_iff comp_def)

theorem messages_received_in_order_witness:
  "\<exists>st'. receive_messages line_host 3 (chunked [[67], [10] @ long_line 83 @ [10] @ long_line 72, [], [10]], []) =
     Some (Ok [registry_connection 7, registry_response (Success 5),
       registry_response (Holder 5 (SocketAddrV4 1 2))], st', [])"
  using messages_received_in_order [of line_host
      "[registry_connection 7, registry_response (Success 5), registry_response (Holder 5 (SocketAddrV4 1 2))]"
      "[[67, 10], long_line 83 @ [10], long_line 72 @ [10]]"
      "chunked [[67], [10] @ long_line 83 @ [10] @ long_line 72, [], [10]]"] line_codec
  by (auto simp: to_vec_def line_ser_def message_defs numeral_3_eq_3)



text \<open>
  A closed stream hangs the client. When the registry has closed the stream before a
  newline, a call that waits for a response never returns: \<open>read\<close> gives no bytes and no error
  for ever.
\<close>

lemma closed_stream_hangs_client:
  assumes "only_bytes (registry_stream c)" and "newline \<notin> set (bytes_of (registry_stream c))"
    and "at_end (registry_stream c) = None"
  shows "registry_handle_response h c = None \<and> registry_await_read h c = None \<and>
     registry_await_write h c = None \<and> registry_expect_success h k c = None"
proof -
  have "registry_handle_response h c = None"
    using read_lines_closed [of "registry_stream c"] assms
    by (simp add: registry_handle_response_def with_lines_def receive_message_def ends_silently_def)
  then show ?thesis
    by (simp add: registry_await_read_def registry_await_write_def registry_expect_success_def)
qed

definition demo_client :: "byte list list \<Rightarrow> ProtocolClient" where
  "demo_client chunks =
     \<lparr>is_primary = True, logging = True, primary_server = SocketAddrV4 1 4000,
      secondary_server = SocketAddrV4 1 4001, client_id = 7,
      registry_stream = chunked chunks, curr_data = []\<rparr>"

lemma demo_client_simps [simp]:
  "registry_stream (demo_client chunks) = chunked chunks" "curr_data (demo_client chunks) = []"
  "is_primary (demo_client chunks)" "client_id (demo_client chunks) = 7"
  by (simp_all add: demo_client_def)

definition second_dial :: dial where
  "second_dial = \<lparr>connection = Ok (chunked [[67, 10]]), read_timeout = Ok (), write_timeout = Ok ()\<rparr>"

text \<open>
  C26: A time-out loses no data. When the stream fails before the next newline, the call returns
  \<open>UnexpectedResponse\<close> and all bytes that had arrived are kept in \<open>curr_data\<close> for the next call.
\<close>

theorem timeout_keeps_data:
  assumes "only_bytes (registry_stream c)" and "newline \<notin> set (bytes_of (registry_stream c))"
    and "at_end (registry_stream c) = Some e"
  shows "\<exists>st. registry_handle_response h c =
     Some (Err UnexpectedResponse,
       c\<lparr>registry_stream := st, curr_data := curr_data c @ bytes_of (registry_stream c)\<rparr>)"
proof -
  from read_lines_error [OF assms, of "curr_data c"] obtain st
    where "read_lines (registry_stream c) (curr_data c) =
      Some (Err e, st, curr_data c @ bytes_of (registry_stream c))"
    by blast
  then show ?thesis
    by (intro exI [of _ st])
       (simp add: registry_handle_response_def with_lines_def receive_message_def)
qed

theorem timeout_keeps_data_witness:
  "\<exists>st. registry_handle_response line_host ((demo_client [])\<lparr>registry_stream :=
       (chunked [[1, 2], [3]])\<lparr>at_end := Some (OsError WouldBlock [])\<rparr>\<rparr>) =
     Some (Err UnexpectedResponse, (demo_client [])\<lparr>registry_stream := st, curr_data := [1, 2, 3]\<rparr>)"
  using timeout_keeps_data [of "(demo_client [])\<lparr>registry_stream :=
       (chunked [[1, 2], [3]])\<lparr>at_end := Some (OsError WouldBlock [])\<rparr>\<rparr>" "OsError WouldBlock []" line_host]
  by (simp add: chunked_def only_bytes_def bytes_of_def)

section \<open>Requests\<close>

lemma request_sent:
  assumes "to_vec (ser h) (registry_request k (client_id c) t) = Ok data"
    and "write_plan (registry_stream c) = []" and "is_ok (fst (stream_peek 1 (registry_stream c)))"
  shows "registry_send_request h d k t c =
     Some (Ok (), c\<lparr>registry_stream := (registry_stream c)\<lparr>sent := sent (registry_stream c) @ data\<rparr>\<rparr>)"
proof -
  let ?st = "(registry_stream c)\<lparr>sent := sent (registry_stream c) @ data\<rparr>"
  have "fst (stream_read 1 ?st) = fst (stream_read 1 (registry_stream c))"
    by (simp add: stream_read_def split: list.split sum.split option.split)
  then obtain bytes where "stream_peek 1 ?st = (Ok bytes, ?st)"
    using assms(3) by (auto simp: stream_peek_def is_ok_iff split_beta Let_def)
  with assms(1,2) show ?thesis
    by (simp add: registry_send_request_def stream_write_all_def)
qed

text \<open>
  C25: A server that has closed the connection is not noticed. \<open>peek\<close> reports 0 bytes as success, so the
  request is not repeated on the secondary registry, and the client waits for its answer for ever.
\<close>

theorem closed_server_not_noticed:
  assumes "to_vec (ser h) (registry_request k (client_id c) t) = Ok data"
    and "write_plan (registry_stream c) = []" and "incoming (registry_stream c) = []"
    and "at_end (registry_stream c) = None"
  shows "(\<exists>c'. registry_send_request h d k t c = Some (Ok (), c') \<and> registry_handle_response h c' = None) \<and>
     (t = Create \<longrightarrow> registry_create h d k c = None) \<and> (t = Read \<longrightarrow> registry_read_sync h d k c = None)"
proof -
  let ?c = "c\<lparr>registry_stream := (registry_stream c)\<lparr>sent := sent (registry_stream c) @ data\<rparr>\<rparr>"
  have send: "registry_send_request h d k t c = Some (Ok (), ?c)"
    using assms(3,4) by (intro request_sent [OF assms(1,2)]) (simp add: stream_peek_def stream_read_def)
  have hang: "registry_handle_response h ?c = None"
    using read_lines_closed [of "registry_stream ?c"] assms(3,4)
    by (simp add: registry_handle_response_def with_lines_def receive_message_def ends_silently_def
        only_bytes_def bytes_of_def)
  with send show ?thesis
    by (auto simp: registry_create_def registry_expect_success_def registry_read_sync_def
        registry_read_def registry_await_read_def)
qed

theorem closed_server_not_noticed_witness:
  "registry_read_sync line_host second_dial 5 (demo_client []) = None"
  using closed_server_not_noticed [of line_host 5 "demo_client []" Read "long_line 82 @ [10]" second_dial]
  by (simp add: to_vec_def line_ser_def message_defs)

section \<open>The secondary registry\<close>

text \<open>
  C27: The change to the secondary registry keeps the old id. When the write to the primary registry
  fails, the request is written to the secondary one, with the id the primary registry
  gave, whatever number the secondary registry announced, or if it announced none; and
  the client still takes itself for connected to the primary one.
\<close>

theorem switch_keeps_old_id:
  assumes "is_primary c" and "to_vec (ser h) (registry_request k (client_id c) t) = Ok data"
    and "fst (stream_write_all data (registry_stream c)) = Err e"
    and "connection d = Ok st" and "read_timeout d = Ok ()" and "write_timeout d = Ok ()"
    and "registry_handle_connection h (st, curr_data c) = Some (r, st', held)"
    and "(\<exists>q. r = Ok q) \<or> (\<exists>e. r = Err e)" and "write_plan st' = []"
  shows "registry_send_request h d k t c =
     Some (Ok (), c\<lparr>registry_stream := st'\<lparr>sent := sent st' @ data\<rparr>, curr_data := held\<rparr>)"
proof -
  obtain st1 where wr: "stream_write_all data (registry_stream c) = (Err e, st1)"
    using assms(3) by (metis prod.collapse)
  have "switch_to_secondary h d (c\<lparr>registry_stream := st1\<rparr>) =
      Some (Ok (), c\<lparr>registry_stream := st', curr_data := held\<rparr>)"
    using assms(4-8) by (auto simp: switch_to_secondary_def with_lines_def)
  with assms(1,2,9) wr show ?thesis
    by (simp add: registry_send_request_def retry_on_secondary_def write_registry_def
        stream_write_all_def)
qed

definition broken_client :: ProtocolClient where
  "broken_client = (demo_client [])\<lparr>registry_stream :=
     (chunked [])\<lparr>write_plan := [Some (0, OsError OtherKind ''broken pipe'')]\<rparr>\<rparr>"

lemma broken_client_simps [simp]:
  "client_id broken_client = 7" "is_primary broken_client" "curr_data broken_client = []"
  "registry_stream broken_client =
     (chunked [])\<lparr>write_plan := [Some (0, OsError OtherKind ''broken pipe'')]\<rparr>"
  by (simp_all add: broken_client_def)

lemma second_connection:
  "registry_handle_connection line_host (chunked [[67, 10]], []) = Some (Ok 7, chunked [], [])"
proof -
  have "read_lines (chunked [[67, 10]]) [] = Some (Ok (), chunked [], [67, 10])"
    by (subst read_lines.simps) (simp add: stream_read_def chunked_def)
  then show ?thesis
    by (simp add: registry_handle_connection_def receive_message_def take_line_def parse_line_def
        from_slice_def line_de_def registry_connection_def)
qed

theorem switch_keeps_old_id_witness:
  "registry_send_request line_host second_dial 5 Read broken_client =
     Some (Ok (), broken_client\<lparr>registry_stream := (chunked [])\<lparr>sent := long_line 82 @ [10]\<rparr>, curr_data := []\<rparr>)"
  using switch_keeps_old_id [of broken_client line_host 5 Read "long_line 82 @ [10]"
      "OsError OtherKind ''broken pipe''" second_dial "chunked [[67, 10]]" "Ok 7" "chunked []" "[]"]
    second_connection
  by (simp add: to_vec_def line_ser_def message_defs second_dial_def stream_write_all_def)

section \<open>Waiting for a grant\<close>

fun read_result :: "RegistryResponse \<Rightarrow> RegistryResponse \<Rightarrow> (ProtocolClientError, SocketAddr) outcome" where
  "read_result (Holder _ a) _ = Ok a"
| "read_result (Error err) _ = Err (RegistryError err)"
| "read_result (Wait key_id) (Holder k a) = (if key_id = k then Ok a else Err UnexpectedResponse)"
| "read_result (Wait key_id) (Error err) = Err (RegistryError err)"
| "read_result (Wait key_id) (Wait k) = Err (WaitError k)"
| "read_result _ _ = Err UnexpectedResponse"

fun write_result :: "RegistryResponse \<Rightarrow> RegistryResponse \<Rightarrow> (ProtocolClientError, unit) outcome" where
  "write_result (Success _) _ = Ok ()"
| "write_result (Error err) _ = Err (RegistryError err)"
| "write_result (Wait key_id) (Success k) = (if key_id = k then Ok () else Err UnexpectedResponse)"
| "write_result (Wait key_id) (Error err) = Err (RegistryError err)"
| "write_result (Wait key_id) (Wait k) = Err (WaitError k)"
| "write_result _ _ = Err UnexpectedResponse"

definition is_wait :: "RegistryResponse \<Rightarrow> bool" where
  "is_wait r \<longleftrightarrow> (\<exists>k. r = Wait k)"

text \<open>
  C24: \<open>registry_read_sync\<close> and \<open>registry_write_sync\<close> on every course the registry takes: an immediate grant is
  returned, a wait is followed by a second message, which must be a grant for the key of the wait, and
  an error is returned as such. The key that was asked for is compared with none of them.
\<close>

theorem sync_calls_follow_responses:
  assumes "to_vec (ser h) (registry_request k (client_id c) t) = Ok data"
    and "write_plan (registry_stream c) = []" and "is_ok (fst (stream_peek 1 (registry_stream c)))"
    and "has_bytes c (frame1 @ frame2 @ rest)" and "frame_of h (registry_response r1) frame1"
    and "frame_of h (registry_response r2) frame2" and "32 \<le> length frame2"
    and "newline \<notin> set (take 31 rest)"
  shows "(t = Read \<longrightarrow> (\<exists>c'. registry_read_sync h d k c = Some (read_result r1 r2, c') \<and>
       has_bytes c' (if is_wait r1 then rest else frame2 @ rest))) \<and>
     (t = Write \<longrightarrow> (\<exists>c'. registry_write_sync h d k c = Some (write_result r1 r2, c') \<and>
       has_bytes c' (if is_wait r1 then rest else frame2 @ rest)))"
proof -
  let ?c = "c\<lparr>registry_stream := (registry_stream c)\<lparr>sent := sent (registry_stream c) @ data\<rparr>\<rparr>"
  have send: "registry_send_request h d k t c = Some (Ok (), ?c)"
    by (rule request_sent [OF assms(1-3)])
  have "has_bytes ?c (frame1 @ frame2 @ rest)"
    using assms(4) by (simp add: has_bytes_def only_bytes_def bytes_of_def)
  from handle_response_frame [OF this assms(5) frame_newline [OF assms(6,7)]] obtain c1
    where r1: "registry_handle_response h ?c = Some (response_result r1, c1)"
      and c1: "has_bytes c1 (frame2 @ rest)"
    by blast
  from handle_response_frame [OF c1 assms(6,8)] obtain c2
    where r2: "registry_handle_response h c1 = Some (response_result r2, c2)" and c2: "has_bytes c2 rest"
    by blast
  have "registry_read_sync h d k c = Some (read_result r1 r2, if is_wait r1 then c2 else c1)" if "t = Read"
    using send r1 r2 that
    by (cases r1; cases r2)
       (simp_all add: registry_read_sync_def registry_read_def registry_await_read_def is_wait_def)
  moreover have "registry_write_sync h d k c = Some (write_result r1 r2, if is_wait r1 then c2 else c1)"
    if "t = Write"
    using send r1 r2 that
    by (cases r1; cases r2)
       (simp_all add: registry_write_sync_def registry_write_def registry_await_write_def is_wait_def)
  ultimately show ?thesis using c1 c2 by (auto split: if_splits)
qed

theorem sync_calls_follow_responses_witness:
  "\<exists>c'. registry_read_sync line_host second_dial 5 (demo_client [long_line 87 @ [10] @ long_line 72, [10]]) =
     Some (Ok (SocketAddrV4 1 2), c')"
  using sync_calls_follow_responses [of line_host 5
      "demo_client [long_line 87 @ [10] @ long_line 72, [10]]" Read "long_line 82 @ [10]"
      "long_line 87 @ [10]" "long_line 72 @ [10]" "[]" "Wait 5" "Holder 5 (SocketAddrV4 1 2)" second_dial]
  by (auto simp: to_vec_def line_ser_def message_defs stream_peek_def stream_read_def
      has_bytes_def frame_of_def line_codec)

end
