(* ===== verification/Data_Store.thy ===== *)
theory Data_Store
  imports Protocol
begin

text \<open>
  The data store of \<open>src/p2p_server.rs\<close>: a map from keys to texts behind a mutex, each text behind
  a mutex of its own. The program shares it between the thread of the application and
  the peer-to-peer server; every method holds the outer mutex until it returns, so a method is one step.

  A panic of a thread that holds a mutex poisons it, and a later \<open>lock\<close> then fails; this is
  modelled, and shown never to happen.
\<close>

section \<open>State and methods\<close>

record 'a mutex =
  poisoned :: bool
  guarded :: 'a

definition new_mutex :: "'a \<Rightarrow> 'a mutex" where
  "new_mutex x = \<lparr>poisoned = False, guarded = x\<rparr>"

datatype DataStoreError =
    StoreIoError string
  | KeyAlreadyExists KeyId
  | KeyDoesNotExists KeyId

record DataStore =
  data_map :: "(KeyId \<rightharpoonup> string mutex) mutex"

type_synonym 'a ds_action = "(DataStore, DataStoreError, 'a) action"

definition new_data_store :: DataStore where
  "new_data_store = \<lparr>data_map = new_mutex Map.empty\<rparr>"

text \<open>
  A method that locks the outer mutex, with an \<open>unwrap\<close> or \<open>expect\<close> of the lock, and works on the map
  with the guard in its hand: a panic in the work poisons the mutex.
\<close>

definition with_map ::
  "(KeyId \<rightharpoonup> string mutex, DataStoreError, 'a) action \<Rightarrow> 'a ds_action"
where
  "with_map work ds =
     (if poisoned (data_map ds) then (Panic UnwrapErr, ds)
      else let (r, m) = work (guarded (data_map ds)) in
        (r, ds\<lparr>data_map := \<lparr>poisoned = is_panic r, guarded = m\<rparr>\<rparr>))"

definition store_create :: "KeyId \<Rightarrow> string \<Rightarrow> unit ds_action" where
  "store_create key data = with_map (\<lambda>m. (Ok (), m(key \<mapsto> new_mutex data)))"

definition store_write :: "KeyId \<Rightarrow> string \<Rightarrow> unit ds_action" where
  "store_write key new_data =
     with_map (\<lambda>m.
       case m key of
         None \<Rightarrow> (Err (KeyDoesNotExists key), m)
       | Some data \<Rightarrow>
           if poisoned data then (Panic UnwrapErr, m)
           else (Ok (), m(key \<mapsto> data\<lparr>guarded := new_data\<rparr>)))"

definition store_delete :: "KeyId \<Rightarrow> unit ds_action" where
  "store_delete key = with_map (\<lambda>m. (Ok (), m(key := None)))"

definition store_get :: "KeyId \<Rightarrow> string ds_action" where
  "store_get key =
     with_map (\<lambda>m.
       case m key of
         None \<Rightarrow> (Err (KeyDoesNotExists key), m)
       | Some data \<Rightarrow> if poisoned data then (Panic UnwrapErr, m) else (Ok (guarded data), m))"

section \<open>The interface of a key-value store\<close>

text \<open>
  What the users of a store rely on: each operation has the effect of the map it stands for, and
  answers as this map does. \<open>missing\<close> is the error for a key that is not there.
\<close>

datatype store_op = CreateOp KeyId string | WriteOp KeyId string | DeleteOp KeyId | GetOp KeyId

text \<open>The operations on a plain map.\<close>

fun map_step :: "(KeyId \<Rightarrow> 'e) \<Rightarrow> store_op \<Rightarrow> (KeyId \<rightharpoonup> string) \<Rightarrow>
    ('e, string option) outcome \<times> (KeyId \<rightharpoonup> string)" where
  "map_step missing (CreateOp k v) m = (Ok None, m(k \<mapsto> v))"
| "map_step missing (WriteOp k v) m =
     (if m k = None then (Err (missing k), m) else (Ok None, m(k \<mapsto> v)))"
| "map_step missing (DeleteOp k) m = (Ok None, m(k := None))"
| "map_step missing (GetOp k) m =
     (case m k of Some v \<Rightarrow> Ok (Some v) | None \<Rightarrow> Err (missing k), m)"

locale key_value_store =
  fixes create_op :: "KeyId \<Rightarrow> string \<Rightarrow> ('s, 'e, unit) action"
    and write_op :: "KeyId \<Rightarrow> string \<Rightarrow> ('s, 'e, unit) action"
    and delete_op :: "KeyId \<Rightarrow> ('s, 'e, unit) action"
    and get_op :: "KeyId \<Rightarrow> ('s, 'e, string) action"
    and valid :: "'s \<Rightarrow> bool"
    and contents :: "'s \<Rightarrow> KeyId \<rightharpoonup> string"
    and missing :: "KeyId \<Rightarrow> 'e"
  assumes create_law: "valid s \<Longrightarrow> fst (create_op k v s) = Ok () \<and> valid (snd (create_op k v s)) \<and>
        contents (snd (create_op k v s)) = (contents s)(k \<mapsto> v)"
    and write_law: "valid s \<Longrightarrow> valid (snd (write_op k v s)) \<and>
        (if contents s k = None
         then fst (write_op k v s) = Err (missing k) \<and> contents (snd (write_op k v s)) = contents s
         else fst (write_op k v s) = Ok () \<and> contents (snd (write_op k v s)) = (contents s)(k \<mapsto> v))"
    and delete_law: "valid s \<Longrightarrow> fst (delete_op k s) = Ok () \<and> valid (snd (delete_op k s)) \<and>
        contents (snd (delete_op k s)) = (contents s)(k := None)"
    and get_law: "valid s \<Longrightarrow>
        get_op k s = (case contents s k of Some v \<Rightarrow> Ok v | None \<Rightarrow> Err (missing k), s)"
begin

fun op_step :: "store_op \<Rightarrow> 's \<Rightarrow> ('e, string option) outcome \<times> 's" where
  "op_step (CreateOp k v) s = apfst (map_ok (\<lambda>_. None)) (create_op k v s)"
| "op_step (WriteOp k v) s = apfst (map_ok (\<lambda>_. None)) (write_op k v s)"
| "op_step (DeleteOp k) s = apfst (map_ok (\<lambda>_. None)) (delete_op k s)"
| "op_step (GetOp k) s = apfst (map_ok Some) (get_op k s)"

lemma op_simulates_map:
  assumes "valid s"
  shows "valid (snd (op_step x s)) \<and> fst (op_step x s) = fst (map_step missing x (contents s)) \<and>
     contents (snd (op_step x s)) = snd (map_step missing x (contents s))"
  by (cases x)
     (use create_law [OF assms] write_law [OF assms] delete_law [OF assms] get_law [OF assms] assms in
       \<open>auto simp: split_beta split: option.splits if_splits\<close>)

end

sublocale key_value_store \<subseteq> as_map: simulation op_step "map_step missing" contents "\<lambda>x r. r" valid
  by unfold_locales (simp_all add: op_simulates_map)

section \<open>The data store is a key-value store\<close>

text \<open>No mutex is poisoned.\<close>

definition ds_inv :: "DataStore \<Rightarrow> bool" where
  "ds_inv ds \<longleftrightarrow> \<not> poisoned (data_map ds) \<and>
     (\<forall>k data. guarded (data_map ds) k = Some data \<longrightarrow> \<not> poisoned data)"

definition ds_contents :: "DataStore \<Rightarrow> KeyId \<rightharpoonup> string" where
  "ds_contents ds = (\<lambda>k. map_option guarded (guarded (data_map ds) k))"

lemma ds_inv_new: "ds_inv new_data_store"
  by (simp add: ds_inv_def new_data_store_def new_mutex_def)

lemma ds_contents_new: "ds_contents new_data_store = Map.empty"
  by (simp add: ds_contents_def new_data_store_def new_mutex_def)

lemmas ds_defs = store_create_def store_write_def store_delete_def store_get_def with_map_def
  ds_inv_def ds_contents_def new_mutex_def

interpretation ds: key_value_store store_create store_write store_delete store_get ds_inv ds_contents
  KeyDoesNotExists
proof
  fix s k v
  assume inv: "ds_inv s"
  then show "fst (store_create k v s) = Ok () \<and> ds_inv (snd (store_create k v s)) \<and>
      ds_contents (snd (store_create k v s)) = (ds_contents s)(k \<mapsto> v)"
    by (auto simp: ds_defs)
  show "ds_inv (snd (store_write k v s)) \<and>
      (if ds_contents s k = None
       then fst (store_write k v s) = Err (KeyDoesNotExists k) \<and>
         ds_contents (snd (store_write k v s)) = ds_contents s
       else fst (store_write k v s) = Ok () \<and>
         ds_contents (snd (store_write k v s)) = (ds_contents s)(k \<mapsto> v))"
    using inv by (auto simp: ds_defs split: option.split)
  show "fst (store_delete k s) = Ok () \<and> ds_inv (snd (store_delete k s)) \<and>
      ds_contents (snd (store_delete k s)) = (ds_contents s)(k := None)"
    using inv by (auto simp: ds_defs)
  show "store_get k s =
      (case ds_contents s k of Some v \<Rightarrow> Ok v | None \<Rightarrow> Err (KeyDoesNotExists k), s)"
    using inv by (auto simp: ds_defs split: option.split)
qed

text \<open>The operations of the data store, as one step function.\<close>

fun data_store_step :: "store_op \<Rightarrow> string option ds_action" where
  "data_store_step (CreateOp k v) ds = apfst (map_ok (\<lambda>_. None)) (store_create k v ds)"
| "data_store_step (WriteOp k v) ds = apfst (map_ok (\<lambda>_. None)) (store_write k v ds)"
| "data_store_step (DeleteOp k) ds = apfst (map_ok (\<lambda>_. None)) (store_delete k ds)"
| "data_store_step (GetOp k) ds = apfst (map_ok Some) (store_get k ds)"

lemma data_store_step_eq: "data_store_step = ds.op_step"
proof (intro ext)
  show "data_store_step x s = ds.op_step x s" for x s by (cases x) simp_all
qed

lemma map_step_no_panic: "r \<in> set (fst (run_ops (map_step missing) xs m)) \<Longrightarrow> \<not> is_panic r"
proof (induction xs arbitrary: m)
  case Nil
  then show ?case by simp
next
  case (Cons x xs)
  have "\<not> is_panic (fst (map_step missing x m))" by (cases x) (auto split: option.split)
  with Cons show ?case by (auto simp: Let_def split_beta)
qed

lemma ds_run:
  assumes "ds_inv ds"
  shows "fst (run_ops data_store_step xs ds) = fst (run_ops (map_step KeyDoesNotExists) xs (ds_contents ds))"
    and "ds_contents (snd (run_ops data_store_step xs ds)) =
      snd (run_ops (map_step KeyDoesNotExists) xs (ds_contents ds))"
    and "ds_inv (snd (run_ops data_store_step xs ds))"
proof -
  have len: "length (fst (run_ops f ys s)) = length ys" for f :: "store_op \<Rightarrow> 'x \<Rightarrow> 'y \<times> 'x" and ys s
    by (induction ys arbitrary: s) (simp_all add: Let_def split_beta)
  have map2: "length ys = length rs \<Longrightarrow> map2 (\<lambda>x r. r) ys rs = rs" for ys :: "store_op list" and rs :: "'z list"
    by (induction ys rs rule: list_induct2) simp_all
  show "fst (run_ops data_store_step xs ds) = fst (run_ops (map_step KeyDoesNotExists) xs (ds_contents ds))"
    "ds_contents (snd (run_ops data_store_step xs ds)) =
      snd (run_ops (map_step KeyDoesNotExists) xs (ds_contents ds))"
    using ds.as_map.run_sim [OF assms, of xs] map2 [of xs "fst (run_ops data_store_step xs ds)"]
    by (simp_all add: data_store_step_eq len)
  show "ds_inv (snd (run_ops data_store_step xs ds))"
    using assms by (induction xs arbitrary: ds)
      (simp_all add: data_store_step_eq Let_def split_beta ds.as_map.sim_inv)
qed

section \<open>Properties\<close>

lemma map_step_results:
  "r \<in> set (fst (run_ops (map_step KeyDoesNotExists) xs m)) \<Longrightarrow> r \<noteq> Err (KeyAlreadyExists k)"
proof (induction xs arbitrary: m)
  case (Cons x xs)
  have "fst (map_step KeyDoesNotExists x m) \<noteq> Err (KeyAlreadyExists k)"
    by (cases x) (auto split: option.split)
  with Cons show ?case by (auto simp: Let_def split_beta)
qed simp

text \<open>
  C10: The data store is a map. Any sequence of its operations gives the answers of a plain map from
  keys to texts, from the empty one, and leaves its contents. No operation panics on a poisoned mutex,
  and none fails with \<open>KeyAlreadyExists\<close>: \<open>create\<close> of an existing key replaces its text.
\<close>

theorem data_store_is_a_map:
  "fst (run_ops data_store_step xs new_data_store) = fst (run_ops (map_step KeyDoesNotExists) xs Map.empty) \<and>
   ds_contents (snd (run_ops data_store_step xs new_data_store)) =
     snd (run_ops (map_step KeyDoesNotExists) xs Map.empty) \<and>
   list_all (\<lambda>r. \<not> is_panic r \<and> (\<forall>k. r \<noteq> Err (KeyAlreadyExists k)))
     (fst (run_ops data_store_step xs new_data_store))"
  using ds_run(1,2) [OF ds_inv_new, of xs] map_step_no_panic [of _ KeyDoesNotExists xs Map.empty]
    map_step_results [of _ xs Map.empty]
  by (auto simp: ds_contents_new list_all_iff)

end
