(* ===== verification/P2P_Server.thy ===== *)
theory P2P_Server
  imports Net Data_Store
begin

text \<open>
  The peer-to-peer server of \<open>src/p2p_server.rs\<close>: other clients connect to it and ask for the
  text of a key, which it takes from the data store it shares with the application.

  Between two events of the server the application can run any operation of the data store
  (\<open>Owner\<close> steps). A peer is modelled by its stream, as in the registry server.
\<close>

section \<open>State and handlers\<close>

datatype P2PServerError =
    PeerIoError io_error
  | ThreadPoolError string
  | SerdeError serde_error
  | DataStore DataStoreError
  | PeerUnexpectedRequest
  | PeerUnexpectedResponse
  | PeerInvalidToken Token

record P2PServer =
  peer_addr :: SocketAddr
  data_store :: DataStore
  peer_stream_map :: "Token \<rightharpoonup> TcpStream"
  peer_poll :: Poll
  token_counter :: usize

type_synonym 'a p2p_action = "(P2PServer, P2PServerError, 'a) action"

definition new_p2p_server ::
  "(io_error, Poll) outcome \<Rightarrow> DataStore \<Rightarrow> SocketAddr \<Rightarrow> (P2PServerError, P2PServer) outcome"
where
  "new_p2p_server new_poll ds a =
     map_ok (\<lambda>p. \<lparr>peer_addr = a, data_store = ds, peer_stream_map = Map.empty, peer_poll = p,
                   token_counter = 0\<rparr>) (map_err PeerIoError new_poll)"

definition p2p_register :: "Token \<Rightarrow> unit p2p_action" where
  "p2p_register tok s =
     (let (r, p) = poll_register tok (peer_poll s) in (map_err PeerIoError r, s\<lparr>peer_poll := p\<rparr>))"

definition p2p_handle_connection :: "TcpStream \<Rightarrow> unit p2p_action" where
  "p2p_handle_connection stream s =
     (case checked_succ (token_counter s) of
        Ok n \<Rightarrow>
          and_then (p2p_register (Token n)) (\<lambda>_ s.
            (Ok (), s\<lparr>peer_stream_map := (peer_stream_map s)(Token n \<mapsto> stream)\<rparr>))
            (s\<lparr>token_counter := n\<rparr>)
      | Err e \<Rightarrow> (Err e, s)
      | Panic p \<Rightarrow> (Panic p, s)
      | Exit n \<Rightarrow> (Exit n, s))"

definition p2p_handle_message :: "Message \<Rightarrow> DataMessage p2p_action" where
  "p2p_handle_message message s =
     (case message of
        Data (DataRequest key_id) \<Rightarrow>
          (let (r, ds) = store_get key_id (data_store s)
           in (map_ok DataResponse (map_err DataStore r), s\<lparr>data_store := ds\<rparr>))
      | _ \<Rightarrow> (Err PeerUnexpectedRequest, s))"

text \<open>The parser, with the log record whose argument is an \<open>unwrap\<close> of \<open>from_utf8\<close>.\<close>

definition p2p_parse :: "host \<Rightarrow> byte list \<Rightarrow> (serde_error, Message) outcome" where
  "p2p_parse h data =
     (case from_slice (de h) data of
        Err e \<Rightarrow> if error_on h \<and> \<not> utf8_valid data then Panic UnwrapErr else Err e
      | r \<Rightarrow> r)"

definition p2p_respond :: "host \<Rightarrow> Token \<Rightarrow> DataMessage \<Rightarrow> unit p2p_action" where
  "p2p_respond h tok response s =
     (case peer_stream_map s tok of
        None \<Rightarrow> (Err (PeerInvalidToken tok), s)
      | Some stream \<Rightarrow>
          (case to_vec (ser h) (Data response) of
             Ok data \<Rightarrow>
               (let (r, stream') = stream_write_all data stream
                in (map_err PeerIoError r,
                    s\<lparr>peer_stream_map := (peer_stream_map s)(tok \<mapsto> stream')\<rparr>))
           | Err e \<Rightarrow> (Err (SerdeError e), s)
           | Panic p \<Rightarrow> (Panic p, s)
           | Exit n \<Rightarrow> (Exit n, s)))"

definition p2p_handle_request :: "host \<Rightarrow> Token \<Rightarrow> byte list \<Rightarrow> unit p2p_action" where
  "p2p_handle_request h tok data =
     and_then (\<lambda>s. (map_err SerdeError (p2p_parse h data), s)) (\<lambda>message.
     and_then (p2p_handle_message message) (\<lambda>response.
     p2p_respond h tok response))"

definition p2p_remove :: "Token \<Rightarrow> P2PServer \<Rightarrow> P2PServer" where
  "p2p_remove tok s = s\<lparr>peer_stream_map := (peer_stream_map s)(tok := None)\<rparr>"

definition p2p_handle_data :: "host \<Rightarrow> Token \<Rightarrow> unit p2p_action" where
  "p2p_handle_data h tok s =
     (case peer_stream_map s tok of
        None \<Rightarrow> (Panic UnwrapNone, s)
      | Some stream \<Rightarrow>
          (let (read, stream') = stream_read 256 stream;
               s = s\<lparr>peer_stream_map := (peer_stream_map s)(tok \<mapsto> stream')\<rparr> in
           case read of
             Ok data \<Rightarrow> if data = [] then (Ok (), p2p_remove tok s) else p2p_handle_request h tok data s
           | Err e \<Rightarrow>
               if kind e = ConnectionReset then (Err (PeerIoError e), p2p_remove tok s)
               else if kind e = WouldBlock then (Ok (), s)
               else (Err (PeerIoError e), s)
           | Panic p \<Rightarrow> (Panic p, s)
           | Exit n \<Rightarrow> (Exit n, s)))"

section \<open>The event loop\<close>

datatype peer_event = PeerEvent Token bool "(io_error + TcpStream \<times> SocketAddr) list"

fun p2p_accept_loop :: "(io_error + TcpStream \<times> SocketAddr) list \<Rightarrow> unit p2p_action" where
  "p2p_accept_loop [] s = (Ok (), s)"
| "p2p_accept_loop (Inr (stream, _) # rest) s =
     and_then (p2p_handle_connection stream) (\<lambda>_. p2p_accept_loop rest) s"
| "p2p_accept_loop (Inl e # rest) s =
     (if kind e = WouldBlock then (Ok (), s)
      else (Panic (Explicit (''Unexpected error: '' @ io_text e)), s))"

text \<open>One event: an error of \<open>handle_data\<close> is only logged.\<close>

fun p2p_event :: "host \<Rightarrow> peer_event \<Rightarrow> unit p2p_action" where
  "p2p_event h (PeerEvent tok readable accepts) s =
     (if tok = Token 0 then p2p_accept_loop accepts s
      else if readable then
        (case p2p_handle_data h tok s of
           (Err _, s) \<Rightarrow> (Ok (), s)
         | r \<Rightarrow> r)
      else (Ok (), s))"

fun p2p_events :: "host \<Rightarrow> peer_event list \<Rightarrow> unit p2p_action" where
  "p2p_events h [] s = (Ok (), s)"
| "p2p_events h (e # es) s = and_then (p2p_event h e) (\<lambda>_. p2p_events h es) s"

text \<open>The loop over the results of \<open>poll\<close>; a failed \<open>poll\<close> is a panic.\<close>

fun p2p_loop :: "host \<Rightarrow> (io_error + peer_event list) list \<Rightarrow> unit p2p_action" where
  "p2p_loop h [] s = (Ok (), s)"
| "p2p_loop h (Inl e # rest) s = (Panic UnwrapErr, s)"
| "p2p_loop h (Inr events # rest) s = and_then (p2p_events h events) (\<lambda>_. p2p_loop h rest) s"

definition p2p_bind ::
  "host \<Rightarrow> (io_error, unit) outcome \<Rightarrow> (io_error + peer_event list) list \<Rightarrow> unit p2p_action"
where
  "p2p_bind h listen polls =
     and_then (\<lambda>s. (map_err PeerIoError listen, s)) (\<lambda>_.
     and_then (p2p_register (Token 0)) (\<lambda>_. p2p_loop h polls))"

section \<open>Reachable states\<close>

inductive p2p_reachable :: "P2PServer \<Rightarrow> bool" where
  start: "new_p2p_server new_poll (snd (run_ops data_store_step xs new_data_store)) a = Ok s \<Longrightarrow>
    p2p_reachable s"
| event: "p2p_reachable s \<Longrightarrow> p2p_event h e s = (Ok (), s') \<Longrightarrow> p2p_reachable s'"
| owner: "p2p_reachable s \<Longrightarrow> p2p_reachable (s\<lparr>data_store := snd (data_store_step x (data_store s))\<rparr>)"

definition p2p_inv :: "P2PServer \<Rightarrow> bool" where
  "p2p_inv s \<longleftrightarrow> ds_inv (data_store s) \<and>
     (\<forall>tok \<in> dom (peer_stream_map s). Token 0 < tok \<and> tok \<le> Token (token_counter s))"

text \<open>What serving a peer can change: what was read from and written to streams that exist.\<close>

definition p2p_footprint :: "P2PServer \<Rightarrow> P2PServer \<Rightarrow> bool" where
  "p2p_footprint s s' \<longleftrightarrow> data_store s' = data_store s \<and> token_counter s' = token_counter s \<and>
     dom (peer_stream_map s') \<subseteq> dom (peer_stream_map s)"

lemma p2p_footprint_trans: "p2p_footprint a b \<Longrightarrow> p2p_footprint b c \<Longrightarrow> p2p_footprint a c"
  unfolding p2p_footprint_def by simp blast

lemma p2p_handle_message_eq:
  assumes "ds_inv (data_store s)"
  shows "p2p_handle_message m s =
     (case m of
        Data (DataRequest k) \<Rightarrow>
          (case ds_contents (data_store s) k of
             Some text \<Rightarrow> (Ok (DataResponse text), s)
           | None \<Rightarrow> (Err (DataStore (KeyDoesNotExists k)), s))
      | _ \<Rightarrow> (Err PeerUnexpectedRequest, s))"
  using ds.get_law [OF assms]
  by (auto simp: p2p_handle_message_def split: Message.split DataMessage.split option.split)

lemma p2p_respond_footprint: "p2p_footprint s (snd (p2p_respond h tok r s))"
  by (auto simp: p2p_footprint_def p2p_respond_def split_beta split: option.split outcome.split)

lemma p2p_handle_request_footprint:
  assumes "ds_inv (data_store s)"
  shows "p2p_footprint s (snd (p2p_handle_request h tok data s))"
proof -
  have "p2p_footprint s (snd (and_then (p2p_handle_message m) (p2p_respond h tok) s))" for m
    using p2p_respond_footprint [of s h tok] p2p_handle_message_eq [OF assms, of m]
    by (auto simp: and_then_def p2p_footprint_def split: Message.split DataMessage.split option.split)
  then show ?thesis
    by (auto simp: p2p_handle_request_def and_then_def [of "\<lambda>s. (map_err _ _, s)"] p2p_footprint_def
        split: outcome.split)
qed

lemma p2p_handle_data_footprint:
  assumes "ds_inv (data_store s)"
  shows "p2p_footprint s (snd (p2p_handle_data h tok s))"
proof (cases "peer_stream_map s tok")
  case None
  then show ?thesis by (simp add: p2p_handle_data_def p2p_footprint_def)
next
  case (Some st)
  obtain r st' where rd: "stream_read 256 st = (r, st')" by fastforce
  let ?s = "s\<lparr>peer_stream_map := (peer_stream_map s)(tok \<mapsto> st')\<rparr>"
  have "p2p_footprint s ?s" "p2p_footprint s (p2p_remove tok ?s)"
    using Some by (auto simp: p2p_footprint_def p2p_remove_def)
  moreover have "p2p_footprint ?s (snd (p2p_handle_request h tok data ?s))" for data
    using p2p_handle_request_footprint [of ?s h tok data] assms by simp
  ultimately have req: "p2p_footprint s (snd (p2p_handle_request h tok data ?s))" for data
    by (blast intro: p2p_footprint_trans)
  show ?thesis
    using Some rd req \<open>p2p_footprint s ?s\<close> \<open>p2p_footprint s (p2p_remove tok ?s)\<close>
    by (cases r) (simp_all add: p2p_handle_data_def Let_def)
qed

lemma p2p_inv_footprint: "p2p_inv s \<Longrightarrow> p2p_footprint s s' \<Longrightarrow> p2p_inv s'"
  unfolding p2p_inv_def p2p_footprint_def by simp blast

lemma p2p_inv_connection:
  assumes "p2p_inv s"
  shows "p2p_inv (snd (p2p_handle_connection st s))"
proof (cases "token_counter s = - 1")
  case True
  with assms show ?thesis by (simp add: p2p_handle_connection_def checked_succ_def)
next
  case False
  let ?n = "token_counter s + 1"
  have "token_counter s < ?n" using unat_succ [OF False] by (simp add: word_less_nat_alt)
  then have less: "Token 0 < Token ?n" "Token (token_counter s) \<le> Token ?n"
    by (auto simp: less_Token_def less_eq_Token_def order_le_less_trans)
  with assms have "\<forall>tok \<in> dom (peer_stream_map s). Token 0 < tok \<and> tok \<le> Token ?n"
    by (auto simp: p2p_inv_def intro: order_trans)
  with assms less(1) False show ?thesis
    by (auto simp: p2p_handle_connection_def checked_succ_def p2p_register_def and_then_def p2p_inv_def
        split: prod.split outcome.split)
qed

lemma p2p_inv_accept: "p2p_inv s \<Longrightarrow> p2p_inv (snd (p2p_accept_loop accepts s))"
proof (induction accepts s rule: p2p_accept_loop.induct)
  case (2 stream a rest s)
  obtain r s' where conn: "p2p_handle_connection stream s = (r, s')" by fastforce
  with p2p_inv_connection [OF 2(2), of stream] have "p2p_inv s'" by simp
  with 2(1) [of s'] conn show ?case by (cases r) auto
qed simp_all

lemma p2p_reachable_inv: "p2p_reachable s \<Longrightarrow> p2p_inv s"
proof (induction rule: p2p_reachable.induct)
  case (start new_poll xs a s)
  then show ?case
    using ds_run(3) [OF ds_inv_new, of xs] by (cases new_poll) (auto simp: new_p2p_server_def p2p_inv_def)
next
  case (event s h e s')
  obtain tok readable accepts where e: "e = PeerEvent tok readable accepts" by (cases e)
  have "p2p_inv (snd (p2p_handle_data h tok s))"
    using p2p_inv_footprint [OF event.IH p2p_handle_data_footprint] event.IH by (simp add: p2p_inv_def)
  with event.hyps(2) p2p_inv_accept [OF event.IH, of accepts] event.IH show ?case
    by (auto simp: e split: if_splits prod.splits outcome.splits)
next
  case (owner s x)
  then show ?case
    using ds.as_map.sim_inv [of "data_store s" x] by (simp add: p2p_inv_def data_store_step_eq)
qed

section \<open>Properties\<close>

text \<open>
  A peer gets the text of the key. When a request for a key of the store arrives, the
  response with its current text is written to the same stream, nothing else of the server
  changes, and the data store is left as it is.
\<close>

lemma peer_gets_current_text:
  assumes "p2p_reachable s" and "peer_stream_map s tok = Some st"
    and "stream_read 256 st = (Ok data, st')" and "data \<noteq> []"
    and "de h data = Ok (Data (DataRequest k))" and "ds_contents (data_store s) k = Some text"
    and "to_vec (ser h) (Data (DataResponse text)) = Ok bytes" and "write_plan st' = []"
  shows "p2p_handle_data h tok s =
     (Ok (), s\<lparr>peer_stream_map := (peer_stream_map s)(tok \<mapsto> st'\<lparr>sent := sent st' @ bytes\<rparr>)\<rparr>)"
proof -
  let ?s = "s\<lparr>peer_stream_map := (peer_stream_map s)(tok \<mapsto> st')\<rparr>"
  have "ds_inv (data_store ?s)" using p2p_reachable_inv [OF assms(1)] by (simp add: p2p_inv_def)
  from p2p_handle_message_eq [OF this, of "Data (DataRequest k)"] assms(6)
  have "p2p_handle_message (Data (DataRequest k)) ?s = (Ok (DataResponse text), ?s)" by simp
  with assms(2-5,7,8) show ?thesis
    by (simp add: p2p_handle_data_def p2p_handle_request_def and_then_def p2p_parse_def from_slice_def
        p2p_respond_def stream_write_all_def)
qed

text \<open>
  C29: A peer that asks for a missing key, or sends anything but a data request, gets no answer: the
  failure is only logged, nothing is written to any stream, and the server goes on.
\<close>

theorem refused_peer_gets_nothing:
  assumes "p2p_reachable s" and "tok \<noteq> Token 0" and "peer_stream_map s tok = Some st"
    and "stream_read 256 st = (Ok data, st')" and "data \<noteq> []" and "de h data = Ok m"
    and "\<forall>k. m = Data (DataRequest k) \<longrightarrow> ds_contents (data_store s) k = None"
  shows "p2p_event h (PeerEvent tok True accepts) s =
     (Ok (), s\<lparr>peer_stream_map := (peer_stream_map s)(tok \<mapsto> st')\<rparr>)"
proof -
  let ?s = "s\<lparr>peer_stream_map := (peer_stream_map s)(tok \<mapsto> st')\<rparr>"
  have "ds_inv (data_store ?s)" using p2p_reachable_inv [OF assms(1)] by (simp add: p2p_inv_def)
  from p2p_handle_message_eq [OF this, of m] assms(7)
  have "\<exists>e. p2p_handle_message m ?s = (Err e, ?s)"
    by (auto split: Message.split DataMessage.split)
  with assms(2-6) show ?thesis
    by (auto simp: p2p_handle_data_def p2p_handle_request_def and_then_def p2p_parse_def from_slice_def)
qed

lemma p2p_respond_safe: "json_total (ser h) (de h) \<Longrightarrow> \<not> is_panic (fst (p2p_respond h tok r s))"
  by (rule to_vec_total [of "ser h" "de h" "Data r"])
     (auto simp: p2p_respond_def split_beta split: option.split)

lemma p2p_handle_request_panics:
  assumes "ds_inv (data_store s)" and "json_total (ser h) (de h)"
  shows "is_panic (fst (p2p_handle_request h tok data s)) \<longleftrightarrow>
     error_on h \<and> \<not> utf8_valid data \<and> (\<exists>e. de h data = Err e)"
proof (cases "de h data")
  case (Ok m)
  have "\<not> is_panic (fst (and_then (p2p_handle_message m) (p2p_respond h tok) s))"
    using p2p_respond_safe [OF assms(2)] p2p_handle_message_eq [OF assms(1), of m]
    by (auto simp: and_then_def split: Message.split DataMessage.split option.split)
  with Ok show ?thesis
    by (simp add: p2p_handle_request_def and_then_def [of "\<lambda>s. (map_err _ _, s)"] p2p_parse_def
        from_slice_def)
next
  case (Err e)
  then show ?thesis
    by (simp add: p2p_handle_request_def and_then_def p2p_parse_def from_slice_def)
qed (use json_totalD(2) [OF assms(2), of data] in auto)

text \<open>
  C28: When data of a peer panics: exactly if there is no stream for the token, or the bytes are
  neither a message nor UTF-8 while the \<open>error\<close> level is logged. No operation of the application on
  the shared store, in any order, can make the server panic.
\<close>

theorem peer_data_panics_exactly:
  assumes "p2p_reachable s" and "json_total (ser h) (de h)"
  shows "is_panic (fst (p2p_handle_data h tok s)) \<longleftrightarrow>
     (case peer_stream_map s tok of
        None \<Rightarrow> True
      | Some stream \<Rightarrow> \<exists>data. fst (stream_read 256 stream) = Ok data \<and> data \<noteq> [] \<and>
          error_on h \<and> \<not> utf8_valid data \<and> (\<exists>e. de h data = Err e))"
proof (cases "peer_stream_map s tok")
  case None
  then show ?thesis by (simp add: p2p_handle_data_def)
next
  case (Some st)
  obtain r st' where rd: "stream_read 256 st = (r, st')" by fastforce
  have r: "(\<exists>bs. r = Ok bs) \<or> (\<exists>e. r = Err e)" using stream_read_outcome [of 256 st] rd by simp
  let ?s = "s\<lparr>peer_stream_map := (peer_stream_map s)(tok \<mapsto> st')\<rparr>"
  have "ds_inv (data_store ?s)" using p2p_reachable_inv [OF assms(1)] by (simp add: p2p_inv_def)
  from p2p_handle_request_panics [OF this assms(2), of tok] Some rd r show ?thesis
    by (auto simp: p2p_handle_data_def Let_def split: if_splits)
qed

section \<open>A concrete server\<close>

definition peer_ser :: json_writer where
  "peer_ser m = (case m of Data (DataResponse text) \<Rightarrow> Ok (map of_char text) | _ \<Rightarrow> Err ''not in the table'')"

definition peer_de :: json_reader where
  "peer_de bs = (if bs = [49] then Ok (Data (DataRequest 1)) else if bs = [50] then Ok (Data (DataRequest 2))
     else Err ''no JSON'')"

definition peer_host :: host where
  "peer_host = \<lparr>ser = peer_ser, de = peer_de, pick = Min, error_on = True, debug_on = False\<rparr>"

lemma peer_host_simps [simp]: "ser peer_host = peer_ser" "de peer_host = peer_de" "error_on peer_host"
  by (simp_all add: peer_host_def)

definition asking :: "byte list \<Rightarrow> TcpStream" where
  "asking bs = \<lparr>incoming = [Inr bs], at_end = Some (OsError WouldBlock []), write_plan = [], sent = []\<rparr>"

definition asked :: TcpStream where
  "asked = \<lparr>incoming = [], at_end = Some (OsError WouldBlock []), write_plan = [], sent = []\<rparr>"

lemma asking_read: "bs \<noteq> [] \<Longrightarrow> length bs \<le> 256 \<Longrightarrow> stream_read 256 (asking bs) = (Ok bs, asked)"
  by (simp add: asking_def asked_def stream_read_def)

definition demo_store :: DataStore where
  "demo_store = snd (store_create 1 ''hi'' new_data_store)"

lemma demo_store_contents: "ds_contents demo_store = [1 \<mapsto> ''hi'']" "ds_inv demo_store"
  using ds.create_law [OF ds_inv_new, of 1 "''hi''"] by (simp_all add: demo_store_def ds_contents_new)

definition demo_p2p_new :: P2PServer where
  "demo_p2p_new =
     \<lparr>peer_addr = SocketAddrV4 1 5000, data_store = demo_store, peer_stream_map = Map.empty,
      peer_poll = \<lparr>register_plan = [], registered = []\<rparr>, token_counter = 0\<rparr>"

lemma demo_p2p_new_reachable: "p2p_reachable demo_p2p_new"
  by (rule p2p_reachable.start [of "Ok \<lparr>register_plan = [], registered = []\<rparr>"
        "[CreateOp 1 ''hi'']" "SocketAddrV4 1 5000"])
     (simp add: new_p2p_server_def demo_store_def demo_p2p_new_def split_beta)

definition demo_p2p :: P2PServer where
  "demo_p2p =
     \<lparr>peer_addr = SocketAddrV4 1 5000, data_store = demo_store,
      peer_stream_map = [Token 1 \<mapsto> asking [49], Token 2 \<mapsto> asking [50], Token 3 \<mapsto> asking [255]],
      peer_poll = \<lparr>register_plan = [], registered = [Token 3, Token 2, Token 1]\<rparr>, token_counter = 3\<rparr>"

lemma demo_p2p_simps [simp]:
  "data_store demo_p2p = demo_store"
  "peer_stream_map demo_p2p = [Token 1 \<mapsto> asking [49], Token 2 \<mapsto> asking [50], Token 3 \<mapsto> asking [255]]"
  by (simp_all add: demo_p2p_def)

lemma demo_p2p_reachable: "p2p_reachable demo_p2p"
  by (rule p2p_reachable.event [OF demo_p2p_new_reachable, of peer_host "PeerEvent (Token 0) True
        [Inr (asking [49], SocketAddrV4 1 1), Inr (asking [50], SocketAddrV4 1 2),
         Inr (asking [255], SocketAddrV4 1 3)]"])
     (simp add: demo_p2p_def demo_p2p_new_def p2p_handle_connection_def checked_succ_def
       p2p_register_def poll_register_def)

theorem refused_peer_gets_nothing_witness:
  "p2p_event peer_host (PeerEvent (Token 2) True []) demo_p2p =
     (Ok (), demo_p2p\<lparr>peer_stream_map := (peer_stream_map demo_p2p)(Token 2 \<mapsto> asked)\<rparr>)"
  by (rule refused_peer_gets_nothing [OF demo_p2p_reachable, where st = "asking [50]" and
        data = "[50]" and m = "Data (DataRequest 2)"])
     (simp_all add: demo_store_contents peer_de_def asking_read)

theorem peer_data_panics_exactly_witness:
  "is_panic (fst (p2p_handle_data peer_host (Token 3) demo_p2p)) \<and>
   \<not> is_panic (fst (p2p_handle_data peer_host (Token 2) demo_p2p))"
proof -
  have "json_total peer_ser peer_de"
    by (simp add: json_total_def peer_ser_def peer_de_def split: Message.split DataMessage.split)
  then have eq: "is_panic (fst (p2p_handle_data peer_host tok demo_p2p)) \<longleftrightarrow>
     (case peer_stream_map demo_p2p tok of
        None \<Rightarrow> True
      | Some stream \<Rightarrow> \<exists>data. fst (stream_read 256 stream) = Ok data \<and> data \<noteq> [] \<and>
          \<not> utf8_valid data \<and> (\<exists>e. peer_de data = Err e))" for tok
    using peer_data_panics_exactly [OF demo_p2p_reachable, of peer_host tok] by simp
  show ?thesis unfolding eq by (simp add: asking_read peer_de_def)
qed

end
