(* ===== verification/Sessions.thy ===== *)
theory Sessions
  imports Registry_Delivery Client_Claims P2P_Server
begin

text \<open>
  Where the client library and the servers meet: the bytes one side writes are the bytes the
  other side reads.
\<close>

section \<open>One request of a client, at the registry\<close>

definition answer_to :: "(RegistryServerError, RegistryResponse) outcome \<Rightarrow> RegistryResponse" where
  "answer_to r = (case r of Ok rsp \<Rightarrow> rsp | Err e \<Rightarrow> Error (display_rs_error e) | _ \<Rightarrow> Ack)"

lemma to_vec_codec:
  assumes "json_codec wr rd" and "to_vec wr m = Ok data"
  shows "rd data = Ok m" and "data \<noteq> []"
  using assms by (cases "wr m"; auto simp: json_codec_def to_vec_def)+

lemma sent_to_same: "token_stream_map s tok = Some st \<Longrightarrow> sent st' = sent st \<Longrightarrow>
    sent_to (s\<lparr>token_stream_map := (token_stream_map s)(tok \<mapsto> st')\<rparr>) tok = sent_to s tok"
  by (simp add: sent_to_def)

text \<open>A request that the registry refuses is answered with the text of the error.\<close>

lemma message_state: "\<exists>am. snd (handle_message h m s) = s\<lparr>access_manager := am\<rparr>"
proof (cases "\<exists>p t k. m = Registry (Request p t k)")
  case True
  then obtain p t k where "m = Registry (Request p t k)" by blast
  then show ?thesis by (simp add: handle_message_state) blast
next
  case False
  then show ?thesis by (intro exI [of _ "access_manager s"]) (simp add: handle_message_other)
qed

lemma refused_request:
  assumes "de h data = Ok m" and "handle_message h m s = (Err e, s1)"
    and "e \<noteq> RegistryServerError.StopRequest" and "writable s" and "token_stream_map s tok \<noteq> None"
    and "can_write h (Error (display_rs_error e))"
  shows "answer_request h tok data s = (Ok (), tell h tok (Error (display_rs_error e)) s1)"
    and "\<exists>am. s1 = s\<lparr>access_manager := am\<rparr>"
proof -
  show s1: "\<exists>am. s1 = s\<lparr>access_manager := am\<rparr>" using message_state [of h m s] assms(2) by simp
  then have "writable s1" "token_stream_map s1 tok \<noteq> None" using assms(4,5) by (auto simp: writable_def)
  then have "handle_error h tok e s1 = (Ok (), tell h tok (Error (display_rs_error e)) s1)"
    using respond [of s1 h "Error (display_rs_error e)" tok] assms(6) by (simp add: handle_error_def)
  with assms(1-3) show "answer_request h tok data s = (Ok (), tell h tok (Error (display_rs_error e)) s1)"
    by (simp add: answer_request_def handle_request_parse parse_logged_def from_slice_def after_parse_def)
qed

text \<open>
  A request that announces nothing is answered to the client that sent it, be it handled or refused.
\<close>

lemma registry_answers:
  assumes reach: "rs_reachable s" and codec: "json_codec (ser h) (de h)" and json: "can_write h (answer_to r)"
    and wr: "writable s" and backup: "backup_stream s = None" and cnt: "request_counter s \<noteq> - 1"
    and st: "token_stream_map s tok = Some st" "tok \<noteq> backup_token s"
    and data: "to_vec (ser h) m = Ok data" "length data \<le> 256" "incoming st = Inr data # later"
    and msg: "handle_message h m (s\<lparr>token_stream_map := (token_stream_map s)(tok \<mapsto> st\<lparr>incoming := later\<rparr>)\<rparr>) = (r, s2)"
    and r: "(\<exists>rsp. r = Ok rsp) \<or> (\<exists>e. r = Err e \<and> e \<noteq> RegistryServerError.StopRequest)"
    and quiet: "buffer (access_granted (access_manager s2)) = []"
  shows "\<exists>s'. handle_data h tok s = (Ok (), s') \<and> access_manager s' = access_manager s2 \<and>
     sent_to s' tok = sent_to s tok @ wire h (answer_to r)"
proof -
  let ?s = "s\<lparr>token_stream_map := (token_stream_map s)(tok \<mapsto> st\<lparr>incoming := later\<rparr>)\<rparr>"
  have parse: "de h data = Ok m" "data \<noteq> []" using to_vec_codec [OF codec data(1)] .
  have "stream_read 256 st = (Ok data, st\<lparr>incoming := later\<rparr>)"
    using data by (simp add: stream_read_def)
  with st parse(2) have hd: "handle_data h tok s = answer_request h tok data ?s"
    by (simp add: handle_data_def Let_def)
  have inv: "rs_inv ?s"
    using rs_inv_footprint [OF rs_reachable_inv [OF reach] footprint_stream [OF st(1)]] .
  have wrs: "writable ?s" using wr st(1) by (auto simp: writable_def)
  have sent: "sent_to ?s tok = sent_to s tok" by (rule sent_to_same [OF st(1)]) simp
  from r show ?thesis
  proof
    assume "\<exists>rsp. r = Ok rsp"
    then obtain rsp where rsp: "r = Ok rsp" by blast
    have coll: "collect_granted (access_manager s2) = ([], access_manager s2)"
      using quiet by (simp add: collect_granted_def try_iter_def)
    have "\<exists>s'. handle_request h tok data ?s = (if backup_stream ?s = None then Ok () else Exit 0, s') \<and>
       access_manager s' = access_manager s2 \<and> backup_stream s' = backup_gets data (backup_stream ?s) \<and>
       told ?s s' \<and> request_counter s' = request_counter ?s + 1 \<and>
       (\<forall>tok'. token_stream_map ?s tok' \<noteq> None \<longrightarrow> sent_to s' tok' =
          sent_to ?s tok' @ (if tok' = tok then wire h rsp else []) @
          notices h (token_addr_map ?s) tok' [])"
      by (rule serve_request [OF inv _ wrs _ _ _ _ _ parse(1) msg [unfolded rsp] coll])
         (use backup cnt json rsp in \<open>simp_all add: answer_to_def\<close>)
    then obtain s' where "handle_request h tok data ?s = (Ok (), s')"
      and "access_manager s' = access_manager s2" and "sent_to s' tok = sent_to ?s tok @ wire h rsp"
      using backup by (auto simp: notices_def)
    then show ?thesis using hd sent rsp by (simp add: answer_request_def answer_to_def)
  next
    assume "\<exists>e. r = Err e \<and> e \<noteq> RegistryServerError.StopRequest"
    then obtain e where e: "r = Err e" "e \<noteq> RegistryServerError.StopRequest" by blast
    have "token_stream_map ?s tok \<noteq> None" by simp
    from refused_request [OF parse(1) msg [unfolded e(1)] e(2) wrs this] json e(1)
    obtain am where ans: "answer_request h tok data ?s = (Ok (), tell h tok (Error (display_rs_error e)) s2)"
      and s2: "s2 = ?s\<lparr>access_manager := am\<rparr>"
      by (auto simp: answer_to_def)
    have "sent_to s2 tok = sent_to s tok" using sent s2 by (simp add: sent_to_def)
    with hd ans e(1) s2 show ?thesis by (simp add: answer_to_def sent_tell)
  qed
qed

section \<open>The other end\<close>

lemma peek_bytes:
  assumes "only_bytes st" and "bytes_of st \<noteq> []"
  shows "is_ok (fst (stream_peek 1 st))"
proof -
  have "incoming st \<noteq> []" using assms(2) by (auto simp: bytes_of_def)
  from read_chunk [OF assms(1) this, of 1] show ?thesis
    by (auto simp: stream_peek_def split_beta Let_def)
qed

text \<open>A client that sends a request and waits for the response, whose bytes will arrive.\<close>

lemma client_exchange:
  assumes codec: "json_codec (ser h) (de h)" and json: "can_write h rsp" and "\<not> debug_on h"
    and data: "to_vec (ser h) (registry_request k (client_id c) t) = Ok data"
    and str: "write_plan (registry_stream c) = []" "only_bytes (registry_stream c)" "curr_data c = []"
    and answer: "bytes_of (registry_stream c) = wire h rsp"
  shows "\<exists>c1 c2. registry_send_request h d k t c = Some (Ok (), c1) \<and>
     registry_handle_response h c1 = Some (response_result rsp, c2) \<and>
     sent (registry_stream c2) = sent (registry_stream c) @ data"
proof -
  have fr: "frame_of h (registry_response rsp) (wire h rsp)"
    using wire_frame [OF json] codec assms(3) by (simp add: frame_of_def)
  have "wire h rsp \<noteq> []" by (rule to_vec_codec(2) [OF codec wire_frame [OF json]])
  with answer have "is_ok (fst (stream_peek 1 (registry_stream c)))"
    by (intro peek_bytes [OF str(2)]) simp
  from request_sent [OF data str(1) this] obtain c1 where c1: "registry_send_request h d k t c = Some (Ok (), c1)"
    and eq: "c1 = c\<lparr>registry_stream := (registry_stream c)\<lparr>sent := sent (registry_stream c) @ data\<rparr>\<rparr>"
    by blast
  have "has_bytes c1 (wire h rsp @ [])"
    using str answer eq by (simp add: has_bytes_def only_bytes_def bytes_of_def)
  moreover have "newline \<notin> set (take 31 ([] :: byte list))" by simp
  ultimately obtain c2 where c2: "registry_handle_response h c1 = Some (response_result rsp, c2)"
    using handle_response_frame [OF _ fr] by blast
  with response_sent [OF c2] c1 eq show ?thesis by auto
qed

text \<open>Both ends together, for the three requests that never announce a grant.\<close>

definition call_outcome :: "RequestType \<Rightarrow> KeyId \<Rightarrow> KeyState option \<Rightarrow>
    (RegistryServerError, RegistryResponse) outcome" where
  "call_outcome t k ks =
     (case t of
        Create \<Rightarrow> if ks = None then Ok (Success k) else Err (AccessManager (KeyExists k))
      | Delete \<Rightarrow>
          (case ks of
             None \<Rightarrow> Err (AccessManager (KeyNotFound k))
           | Some ks \<Rightarrow> if idle ks then Ok (Success k) else Err (AccessManager KeyAccessed))
      | _ \<Rightarrow>
          (case ks of
             None \<Rightarrow> Err (AccessManager (KeyNotFound k))
           | Some ks \<Rightarrow> if idle ks then Ok (Success k) else Ok (Wait k)))"

lemma call_outcome_message:
  assumes "t = Create \<or> t = Delete \<or> t = Write"
  shows "fst (handle_message h (registry_request k p t) s) = call_outcome t k (key_states (access_manager s) k)"
    and "buffer (access_granted (access_manager (snd (handle_message h (registry_request k p t) s)))) =
      buffer (access_granted (access_manager s))"
  using assms
  by (auto simp: handle_message_def registry_request_def success_response_eq write_response_def
      on_manager_eq create_eq delete_eq write_access_eq put_key_state_def call_outcome_def
      split: option.split)

lemma session:
  assumes reach: "rs_reachable s" and codec: "json_codec (ser h) (de h)" and json: "can_write h (answer_to (call_outcome t k (key_states (access_manager s) k)))"
    and dbg: "\<not> debug_on h" and wr: "writable s" and backup: "backup_stream s = None"
    and cnt: "request_counter s \<noteq> - 1" and quiet: "buffer (access_granted (access_manager s)) = []"
    and st: "token_stream_map s tok = Some st" "tok \<noteq> backup_token s"
    and data: "to_vec (ser h) (registry_request k (client_id c) t) = Ok data" "length data \<le> 256"
      "incoming st = Inr data # later"
    and str: "write_plan (registry_stream c) = []" "only_bytes (registry_stream c)" "curr_data c = []"
    and answer: "sent_to (snd (handle_data h tok s)) tok = sent_to s tok @ bytes_of (registry_stream c)"
    and t: "t = Create \<or> t = Delete \<or> t = Write"
  shows "fst (handle_data h tok s) = Ok () \<and>
     access_manager (snd (handle_data h tok s)) = snd (am_step (pick h, Call (client_id c) t k) (access_manager s)) \<and>
     (\<exists>c1 c2. registry_send_request h d k t c = Some (Ok (), c1) \<and> registry_handle_response h c1 =
       Some (response_result (answer_to (call_outcome t k (key_states (access_manager s) k))), c2) \<and>
       sent (registry_stream c2) = sent (registry_stream c) @ data)"
proof -
  let ?s = "s\<lparr>token_stream_map := (token_stream_map s)(tok \<mapsto> st\<lparr>incoming := later\<rparr>)\<rparr>"
  let ?m = "registry_request k (client_id c) t"
  let ?r = "call_outcome t k (key_states (access_manager s) k)"
  obtain s2 where msg: "handle_message h ?m ?s = (?r, s2)"
    and quiet2: "buffer (access_granted (access_manager s2)) = []"
    using call_outcome_message [OF t, of h k "client_id c" ?s] quiet
    by (cases "handle_message h ?m ?s") auto
  have "(\<exists>rsp. ?r = Ok rsp) \<or> (\<exists>e. ?r = Err e \<and> e \<noteq> RegistryServerError.StopRequest)"
    using t by (auto simp: call_outcome_def split: option.split)
  from registry_answers [OF reach codec json wr backup cnt st data msg this quiet2]
  have hd: "fst (handle_data h tok s) = Ok ()"
    and am: "access_manager (snd (handle_data h tok s)) = access_manager s2"
    and "sent_to (snd (handle_data h tok s)) tok = sent_to s tok @ wire h (answer_to ?r)"
    by auto
  with answer have "bytes_of (registry_stream c) = wire h (answer_to ?r)" by simp
  moreover have "access_manager s2 = snd (am_step (pick h, Call (client_id c) t k) (access_manager s))"
    using msg handle_message_state [of h "client_id c" t k ?s] by (simp add: registry_request_def)
  ultimately show ?thesis using client_exchange [OF codec json dbg data(1) str, of d] hd am by simp
qed

section \<open>A client and a peer\<close>

lemma peer_exchange:
  assumes "ds_inv (data_store s)" and "json_codec (ser h) (de h)" and "\<not> debug_on h"
    and "peer_stream_map s tok = Some st" and "incoming st = Inr data # later" and "write_plan st = []"
    and "to_vec (ser h) (Data (DataRequest k)) = Ok data" and "length data \<le> 256"
    and "ds_contents (data_store s) k = Some text"
    and "to_vec (ser h) (Data (DataResponse text)) = Ok bytes" and "length bytes \<le> 256"
    and "write_plan conn = []" and "incoming conn = Inr bytes # others"
  shows "p2p_handle_data h tok s = (Ok (), s\<lparr>peer_stream_map := (peer_stream_map s)
       (tok \<mapsto> st\<lparr>incoming := later, sent := sent st @ bytes\<rparr>)\<rparr>) \<and>
     p2p_read h (Ok conn) k = (Ok text, Some (conn\<lparr>incoming := others, sent := sent conn @ data\<rparr>))"
proof -
  have parse: "de h data = Ok (Data (DataRequest k))" "data \<noteq> []"
    using to_vec_codec [OF assms(2,7)] .
  have rd: "stream_read 256 st = (Ok data, st\<lparr>incoming := later\<rparr>)"
    using assms(5,8) by (simp add: stream_read_def)
  have "p2p_handle_message (Data (DataRequest k)) (s\<lparr>peer_stream_map := (peer_stream_map s)
       (tok \<mapsto> st\<lparr>incoming := later\<rparr>)\<rparr>) = (Ok (DataResponse text), s\<lparr>peer_stream_map := (peer_stream_map s)
       (tok \<mapsto> st\<lparr>incoming := later\<rparr>)\<rparr>)"
    using p2p_handle_message_eq [of "s\<lparr>peer_stream_map := (peer_stream_map s)
       (tok \<mapsto> st\<lparr>incoming := later\<rparr>)\<rparr>"] assms(1,9) by simp
  then have "p2p_handle_data h tok s = (Ok (), s\<lparr>peer_stream_map := (peer_stream_map s)
       (tok \<mapsto> st\<lparr>incoming := later, sent := sent st @ bytes\<rparr>)\<rparr>)"
    using assms(4,6,10) rd parse
    by (simp add: p2p_handle_data_def p2p_handle_request_def and_then_def p2p_parse_def from_slice_def
        p2p_respond_def stream_write_all_def)
  moreover have "de h bytes = Ok (Data (DataResponse text))" using to_vec_codec(1) [OF assms(2,10)] .
  ultimately show ?thesis
    using assms(3,7,11-13)
    by (simp add: p2p_read_def and_then_def stream_write_all_def stream_read_def from_slice_def)
qed

end
