(* ===== verification/Server_Runs.thy ===== *)
theory Server_Runs
  imports Sessions
begin

text \<open>
  Runs of a registry that serves several clients: what each of them receives is what the
  requests, one after the other, make of the access manager. The text of a run is written down by
  \<open>transcript\<close> without streams and bytes; \<open>serve_run\<close> is the server at work on the bytes.
\<close>

section \<open>The transcript of a run\<close>

type_synonym call = "ProcId \<times> RequestType \<times> KeyId"

text \<open>Who is told what: the answer to each request, and the grants it announces.\<close>

definition told_to :: "RegistryServer \<Rightarrow> AccessGranted list \<Rightarrow> (ProcId \<times> RegistryResponse) list" where
  "told_to s gs = map (\<lambda>g. (fst g, grant_response (token_addr_map s) g)) gs"

fun call_step :: "host \<Rightarrow> call \<Rightarrow> RegistryServer \<Rightarrow> (ProcId \<times> RegistryResponse) list \<times> RegistryServer" where
  "call_step h (p, t, k) s =
     (let (r, s1) = handle_message h (registry_request k p t) s in
      if is_ok r then (let (gs, s2) = collect_requests s1 in ((p, answer_to r) # told_to s gs, s2))
      else ([(p, answer_to r)], s1))"

fun transcript :: "host \<Rightarrow> call list \<Rightarrow> RegistryServer \<Rightarrow> (ProcId \<times> RegistryResponse) list \<times> RegistryServer" where
  "transcript h [] s = ([], s)"
| "transcript h (x # xs) s =
     (let (said, s1) = call_step h x s; (rest, s2) = transcript h xs s1 in (said @ rest, s2))"

text \<open>The bytes for one client.\<close>

definition lines_for :: "host \<Rightarrow> ProcId \<Rightarrow> (ProcId \<times> RegistryResponse) list \<Rightarrow> byte list list" where
  "lines_for h p said = map (wire h \<circ> snd) (filter (\<lambda>x. fst x = p) said)"

lemma lines_for_append: "lines_for h p (xs @ ys) = lines_for h p xs @ lines_for h p ys"
  by (simp add: lines_for_def)

section \<open>The server at work\<close>

definition request_line :: "host \<Rightarrow> call \<Rightarrow> byte list" where
  "request_line h x =
     (case x of (p, t, k) \<Rightarrow>
        (case to_vec (ser h) (registry_request k p t) of Ok data \<Rightarrow> data | _ \<Rightarrow> []))"

text \<open>The JSON library writes the request, on at most 256 bytes.\<close>

definition can_ask :: "host \<Rightarrow> call \<Rightarrow> bool" where
  "can_ask h x \<longleftrightarrow>
     (case x of (p, t, k) \<Rightarrow> is_ok (ser h (registry_request k p t))) \<and> length (request_line h x) \<le> 256"

lemma request_line: "can_ask h (p, t, k) \<Longrightarrow>
    to_vec (ser h) (registry_request k p t) = Ok (request_line h (p, t, k)) \<and>
    length (request_line h (p, t, k)) \<le> 256"
  by (auto simp: can_ask_def request_line_def to_vec_def is_ok_iff)

text \<open>Each client \<open>p\<close> has the token of its number; its request arrives and is handled.\<close>

fun serve_run :: "host \<Rightarrow> call list \<Rightarrow> RegistryServer \<Rightarrow> RegistryServer" where
  "serve_run h [] s = s"
| "serve_run h (x # xs) s =
     serve_run h xs (snd (handle_data h (Token (fst x)) (arrive (Token (fst x)) (request_line h x) s)))"

fun serve_outcomes :: "host \<Rightarrow> call list \<Rightarrow> RegistryServer \<Rightarrow> (RegistryServerError, unit) outcome list" where
  "serve_outcomes h [] s = []"
| "serve_outcomes h (x # xs) s =
     (let (r, s') = handle_data h (Token (fst x)) (arrive (Token (fst x)) (request_line h x) s)
      in r # serve_outcomes h xs s')"

text \<open>A server without a backup, nothing left to read or to announce, and clients that listen.\<close>

definition ready :: "ProcId set \<Rightarrow> RegistryServer \<Rightarrow> bool" where
  "ready ps s \<longleftrightarrow> rs_inv s \<and> writable s \<and> backup_stream s = None \<and>
     buffer (access_granted (access_manager s)) = [] \<and>
     (\<forall>p \<in> ps. p \<noteq> 999 \<and> map_option incoming (token_stream_map s (Token p)) = Some [])"

text \<open>The handlers of messages look at the access manager and the addresses only.\<close>

definition same_view :: "RegistryServer \<Rightarrow> RegistryServer \<Rightarrow> bool" where
  "same_view s s' \<longleftrightarrow> access_manager s' = access_manager s \<and> token_addr_map s' = token_addr_map s"

lemma view_answer:
  assumes "same_view s s'"
  shows "fst (handle_message h m s') = fst (handle_message h m s)"
  using assms
  by (auto simp: same_view_def handle_message_def success_response_eq read_response_def
      write_response_def on_manager_eq and_then_def proc_id_to_addr_def
      split: Message.split RegistryMessage.split RequestType.split prod.split outcome.split
        AccessManagerError.split option.split)

lemma view_message:
  assumes "same_view s s'"
  shows "same_view (snd (handle_message h m s)) (snd (handle_message h m s'))"
proof (cases "\<exists>p t k. m = Registry (Request p t k)")
  case True
  then obtain p t k where "m = Registry (Request p t k)" by blast
  with assms show ?thesis by (simp add: same_view_def handle_message_state)
qed (use assms in \<open>simp add: handle_message_other\<close>)

lemma view_collect:
  assumes "same_view s s'"
  shows "fst (collect_requests s') = fst (collect_requests s)"
    and "same_view (snd (collect_requests s)) (snd (collect_requests s'))"
  using assms by (simp_all add: same_view_def collect_requests_def split_beta)

lemma view_call:
  assumes "same_view s s'"
  shows "fst (call_step h x s') = fst (call_step h x s)"
    and "same_view (snd (call_step h x s)) (snd (call_step h x s'))"
proof -
  obtain p t k where x: "x = (p, t, k)" by (metis prod.exhaust)
  let ?m = "registry_request k p t"
  obtain r s1 where a: "handle_message h ?m s = (r, s1)" by fastforce
  with view_answer [OF assms, of h ?m] obtain s1' where b: "handle_message h ?m s' = (r, s1')"
    by (metis fst_conv surj_pair)
  have v1: "same_view s1 s1'" using view_message [OF assms, of h ?m] a b by simp
  obtain gs s2 where c: "collect_requests s1 = (gs, s2)" by fastforce
  with view_collect(1) [OF v1] obtain s2' where d: "collect_requests s1' = (gs, s2')"
    by (metis fst_conv surj_pair)
  have "same_view s2 s2'" using view_collect(2) [OF v1] c d by simp
  with a b c d v1 assms show "fst (call_step h x s') = fst (call_step h x s)"
    "same_view (snd (call_step h x s)) (snd (call_step h x s'))"
    by (simp_all add: x told_to_def same_view_def)
qed

lemma view_transcript:
  assumes "same_view s s'"
  shows "fst (transcript h xs s') = fst (transcript h xs s)"
  using assms
proof (induction xs arbitrary: s s')
  case (Cons x xs)
  from Cons.IH [OF view_call(2) [OF Cons.prems]] view_call(1) [OF Cons.prems] show ?case
    by (simp add: split_beta Let_def)
qed simp

lemma view_transcript_state:
  assumes "same_view s s'"
  shows "same_view (snd (transcript h xs s)) (snd (transcript h xs s'))"
  using assms
proof (induction xs arbitrary: s s')
  case (Cons x xs)
  from Cons.IH [OF view_call(2) [OF Cons.prems]] show ?case by (simp add: split_beta Let_def)
qed simp

section \<open>One request\<close>

text \<open>The announced data holders have an address.\<close>

definition holders_known :: "host \<Rightarrow> call \<Rightarrow> RegistryServer \<Rightarrow> bool" where
  "holders_known h x s \<longleftrightarrow>
     (case x of (p, t, k) \<Rightarrow>
        list_all (holder_known (token_addr_map s))
          (fst (collect_requests (snd (handle_message h (registry_request k p t) s)))))"

lemma notices_lines: "concat (lines_for h q (told_to s gs)) = notices h (token_addr_map s) (Token q) gs"
  by (simp add: lines_for_def told_to_def notices_def filter_map comp_def)

lemma arrive_read:
  assumes "ready ps s" and "p \<in> ps" and "data \<noteq> []" and "length data \<le> 256"
  shows "handle_data h (Token p) (arrive (Token p) data s) = answer_request h (Token p) data s"
proof -
  obtain st where st: "token_stream_map s (Token p) = Some st" "incoming st = []" and "p \<noteq> 999"
    using assms(1,2) by (auto simp: ready_def)
  have "backup_token s = Token 999" using assms(1) by (simp add: ready_def rs_inv_def)
  moreover have "st\<lparr>incoming := []\<rparr> = st" using st(2) by (cases st) simp
  then have "s\<lparr>token_stream_map := (token_stream_map s)(Token p \<mapsto> st\<lparr>incoming := []\<rparr>)\<rparr> = s"
    using st(1) by (simp add: fun_upd_idem)
  ultimately show ?thesis
    using st(1) assms(3,4) st(2) \<open>p \<noteq> 999\<close> by (simp add: handle_data_def arrive_def stream_read_def Let_def)
qed

lemma told_ready:
  assumes "ready ps s" and "told s s'" and "request_footprint s s'" and "backup_stream s' = None"
    and "buffer (access_granted (access_manager s')) = []"
  shows "ready ps s'"
  using assms rs_inv_footprint [of s s'] by (auto simp: ready_def told_def)

lemma request_refused:
  assumes "am_inv (access_manager s)" and "handle_message h (registry_request k p t) s = (r, s1)"
    and "\<not> is_ok r"
  shows "(\<exists>e. r = Err e \<and> e \<noteq> RegistryServerError.StopRequest) \<and>
     buffer (access_granted (access_manager s1)) = buffer (access_granted (access_manager s))"
  using assms
  by (cases t)
     (auto simp: handle_message_def registry_request_def success_response_eq read_response_def
       write_response_def on_manager_eq create_eq delete_eq release_eq read_access_eq write_access_eq
       put_key_state_def and_then_def proc_id_to_addr_def split: option.splits if_splits)

text \<open>What one request leaves: the transcript of the call, and each client its lines.\<close>

definition call_served ::
  "host \<Rightarrow> ProcId set \<Rightarrow> RegistryServer \<Rightarrow> (ProcId \<times> RegistryResponse) list \<Rightarrow> RegistryServer \<Rightarrow>
     RegistryServer \<Rightarrow> bool"
where
  "call_served h ps s said s2 s' \<longleftrightarrow> ready ps s' \<and> same_view s2 s' \<and>
     unat (request_counter s') \<le> unat (request_counter s) + 1 \<and>
     (\<forall>q \<in> ps. sent_to s' (Token q) = sent_to s (Token q) @ concat (lines_for h q said))"

lemma ready_streams: "ready ps s \<Longrightarrow> q \<in> ps \<Longrightarrow> token_stream_map s (Token q) \<noteq> None"
  by (auto simp: ready_def)

lemma serve_handled:
  assumes ready: "ready ps s" and p: "p \<in> ps" and cnt: "request_counter s \<noteq> - 1"
    and known: "holders_known h (p, t, k) s" and step: "call_step h (p, t, k) s = (said, s2)"
    and json: "\<forall>x \<in> set said. can_write h (snd x)"
    and parse: "de h data = Ok (registry_request k p t)"
    and msg: "handle_message h (registry_request k p t) s = (Ok rsp, s1)"
  shows "\<exists>s'. answer_request h (Token p) data s = (Ok (), s') \<and> call_served h ps s said s2 s'"
proof -
  have inv: "rs_inv s" "writable s" "backup_stream s = None" using ready by (auto simp: ready_def)
  obtain gs am where gs: "collect_granted (access_manager s1) = (gs, am)" by fastforce
  then have said: "said = (p, rsp) # told_to s gs" "s2 = s1\<lparr>access_manager := am\<rparr>"
    using step msg by (auto simp: collect_requests_def answer_to_def)
  have "\<exists>s'. handle_request h (Token p) data s = (if backup_stream s = None then Ok () else Exit 0, s') \<and>
     access_manager s' = am \<and> backup_stream s' = backup_gets data (backup_stream s) \<and>
     told s s' \<and> request_counter s' = request_counter s + 1 \<and>
     (\<forall>tok'. token_stream_map s tok' \<noteq> None \<longrightarrow> sent_to s' tok' =
        sent_to s tok' @ (if tok' = Token p then wire h rsp else []) @
        notices h (token_addr_map s) tok' gs)"
    using json known msg gs said
    by (intro serve_request [OF inv(1) _ inv(2) _ _ _ ready_streams [OF ready p] cnt parse msg gs])
       (auto simp: inv(3) told_to_def list_all_iff holders_known_def collect_requests_def)
  then obtain s' where s': "handle_request h (Token p) data s = (Ok (), s')" "access_manager s' = am"
      "backup_stream s' = None" "told s s'" "request_counter s' = request_counter s + 1"
    and sent: "\<And>tok'. token_stream_map s tok' \<noteq> None \<Longrightarrow> sent_to s' tok' =
        sent_to s tok' @ (if tok' = Token p then wire h rsp else []) @ notices h (token_addr_map s) tok' gs"
    using inv(3) by (auto simp: backup_gets_def)
  have "buffer (access_granted am) = []" using gs by (auto simp: collect_granted_def try_iter_def)
  then have "ready ps s'"
    using footprint_handle_request [of s h "Token p" data] s' gs
    by (intro told_ready [OF ready s'(4)]) simp_all
  moreover have "same_view s2 s'"
    using s' said msg handle_message_state [of h p t k s]
    by (simp add: same_view_def told_def registry_request_def)
  moreover have "sent_to s' (Token q) = sent_to s (Token q) @ concat (lines_for h q said)" if "q \<in> ps" for q
    using sent [OF ready_streams [OF ready that]] notices_lines [of h q s gs] said
    by (auto simp: lines_for_def)
  ultimately show ?thesis
    using s' unat_succ [OF cnt] by (intro exI [of _ s']) (simp add: answer_request_def call_served_def)
qed

lemma serve_refused:
  assumes ready: "ready ps s" and p: "p \<in> ps" and step: "call_step h (p, t, k) s = (said, s2)"
    and json: "\<forall>x \<in> set said. can_write h (snd x)"
    and parse: "de h data = Ok (registry_request k p t)"
    and msg: "handle_message h (registry_request k p t) s = (r, s1)" and r: "\<not> is_ok r"
  shows "\<exists>s'. answer_request h (Token p) data s = (Ok (), s') \<and> call_served h ps s said s2 s'"
proof -
  have inv: "rs_inv s" "writable s" "backup_stream s = None" using ready by (auto simp: ready_def)
  then have "am_inv (access_manager s)" by (auto simp: rs_inv_def intro: am_reachable_inv)
  from request_refused [OF this msg r] obtain e where e: "r = Err e" "e \<noteq> RegistryServerError.StopRequest"
    and buf: "buffer (access_granted (access_manager s1)) = []"
    using ready by (auto simp: ready_def)
  let ?rsp = "Error (display_rs_error e)"
  let ?s' = "tell h (Token p) ?rsp s1"
  have said: "said = [(p, ?rsp)]" "s2 = s1" using step msg e by (auto simp: answer_to_def)
  with json refused_request [OF parse msg [unfolded e(1)] e(2) inv(2) ready_streams [OF ready p]]
  obtain am where ans: "answer_request h (Token p) data s = (Ok (), ?s')"
    and s1: "s1 = s\<lparr>access_manager := am\<rparr>"
    by auto
  have "told s ?s'" using s1 told_tell told_trans [of s s1] by auto
  then have "ready ps ?s'"
    using footprint_answer [of s h "Token p" data] ans buf s1 inv(3) by (intro told_ready [OF ready]) auto
  moreover have "sent_to ?s' (Token q) = sent_to s (Token q) @ concat (lines_for h q said)" if "q \<in> ps" for q
    using ready_streams [OF ready that] s1 said by (auto simp: sent_tell lines_for_def) (auto simp: sent_to_def)
  ultimately show ?thesis
    using ans s1 said by (intro exI [of _ ?s']) (simp add: call_served_def same_view_def)
qed

lemma serve_call:
  assumes ready: "ready ps s" and codec: "json_codec (ser h) (de h)" and p: "p \<in> ps"
    and ask: "can_ask h (p, t, k)" and cnt: "request_counter s \<noteq> - 1"
    and known: "holders_known h (p, t, k) s" and step: "call_step h (p, t, k) s = (said, s2)"
    and json: "\<forall>x \<in> set said. can_write h (snd x)"
  shows "\<exists>s'. handle_data h (Token p) (arrive (Token p) (request_line h (p, t, k)) s) = (Ok (), s') \<and>
     call_served h ps s said s2 s'"
proof -
  note line = request_line [OF ask]
  note parse = to_vec_codec [OF codec conjunct1 [OF line]]
  obtain r s1 where msg: "handle_message h (registry_request k p t) s = (r, s1)" by fastforce
  have "\<exists>s'. answer_request h (Token p) (request_line h (p, t, k)) s = (Ok (), s') \<and>
      call_served h ps s said s2 s'"
  proof (cases "is_ok r")
    case True
    then obtain rsp where "r = Ok rsp" by (auto simp: is_ok_iff)
    with serve_handled [OF ready p cnt known step json parse(1)] msg show ?thesis by simp
  qed (rule serve_refused [OF ready p step json parse(1) msg])
  with arrive_read [OF ready p parse(2) conjunct2 [OF line]] show ?thesis by simp
qed

section \<open>A whole run\<close>

text \<open>Every answer of the run can be written, and every announced holder has an address.\<close>

fun goes_well :: "host \<Rightarrow> call list \<Rightarrow> RegistryServer \<Rightarrow> bool" where
  "goes_well h [] s = True"
| "goes_well h (x # xs) s =
     (let (said, s1) = call_step h x s in
      holders_known h x s \<and> list_all (\<lambda>y. can_write h (snd y)) said \<and> goes_well h xs s1)"

lemma view_holders:
  assumes "same_view s s'"
  shows "holders_known h x s' = holders_known h x s"
proof -
  obtain p t k where x: "x = (p, t, k)" by (metis prod.exhaust)
  have "token_addr_map s' = token_addr_map s" using assms by (simp add: same_view_def)
  with view_collect(1) [OF view_message [OF assms]] show ?thesis by (simp add: holders_known_def x)
qed

lemma view_goes_well:
  assumes "same_view s s'"
  shows "goes_well h xs s' = goes_well h xs s"
  using assms
proof (induction xs arbitrary: s s')
  case (Cons x xs)
  from Cons.IH [OF view_call(2) [OF Cons.prems]] view_call(1) [OF Cons.prems] view_holders [OF Cons.prems]
  show ?case by (simp add: split_beta Let_def)
qed simp

lemma serve_transcript:
  assumes "ready ps s" and "json_codec (ser h) (de h)"
    and "list_all (\<lambda>x. fst x \<in> ps \<and> can_ask h x) xs"
    and "unat (request_counter s) + length xs < 2 ^ 64" and "goes_well h xs s"
  shows "list_all (\<lambda>r. r = Ok ()) (serve_outcomes h xs s) \<and>
     ready ps (serve_run h xs s) \<and> same_view (snd (transcript h xs s)) (serve_run h xs s) \<and>
     (\<forall>q \<in> ps. sent_to (serve_run h xs s) (Token q) =
        sent_to s (Token q) @ concat (lines_for h q (fst (transcript h xs s))))"
  using assms
proof (induction xs arbitrary: s)
  case Nil
  then show ?case by (simp add: lines_for_def same_view_def)
next
  case (Cons x xs)
  obtain p t k where x: "x = (p, t, k)" by (metis prod.exhaust)
  obtain said s2 where step: "call_step h x s = (said, s2)" by fastforce
  have "request_counter s \<noteq> - 1"
  proof
    assume "request_counter s = - 1"
    then have "unat (request_counter s) = 2 ^ 64 - 1" by (simp add: unsigned_minus_1_eq_mask mask_eq_exp_minus_1)
    with Cons.prems(4) show False by simp
  qed
  then obtain s' where s': "handle_data h (Token p) (arrive (Token p) (request_line h x) s) = (Ok (), s')"
      "ready ps s'" "same_view s2 s'" "unat (request_counter s') \<le> unat (request_counter s) + 1"
    and sent: "\<And>q. q \<in> ps \<Longrightarrow> sent_to s' (Token q) = sent_to s (Token q) @ concat (lines_for h q said)"
    using serve_call [OF Cons.prems(1,2), of p t k said s2] Cons.prems(3,5) step
    by (auto simp: x list_all_iff call_served_def)
  have "goes_well h xs s'" using Cons.prems(5) step view_goes_well [OF s'(3)] by simp
  with Cons.IH [OF s'(2) Cons.prems(2)] Cons.prems(3,4) s'(4)
  have IH: "list_all (\<lambda>r. r = Ok ()) (serve_outcomes h xs s') \<and> ready ps (serve_run h xs s') \<and> same_view (snd (transcript h xs s')) (serve_run h xs s') \<and>
     (\<forall>q \<in> ps. sent_to (serve_run h xs s') (Token q) =
        sent_to s' (Token q) @ concat (lines_for h q (fst (transcript h xs s'))))"
    by simp
  have run: "serve_run h (x # xs) s = serve_run h xs s'"
    "serve_outcomes h (x # xs) s = Ok () # serve_outcomes h xs s'"
    using s'(1) by (simp_all add: x)
  obtain rest s3 where tr: "transcript h xs s2 = (rest, s3)" by fastforce
  have "fst (transcript h xs s') = rest" using view_transcript [OF s'(3), of h xs] tr by simp
  moreover have "same_view s3 (snd (transcript h xs s'))"
    using view_transcript_state [OF s'(3), of h xs] tr by simp
  ultimately show ?case
    using IH sent step tr
    by (auto simp: run lines_for_append same_view_def simp del: serve_run.simps serve_outcomes.simps)
qed

section \<open>A run and the lock\<close>

text \<open>What the calls of a run make of the specification of the lock.\<close>

definition spec_run :: "call list \<Rightarrow> lock_table \<Rightarrow> lock_table" where
  "spec_run xs T = fold (\<lambda>(p, t, k) T. snd (snd (spec_step p t k T))) xs T"

lemma call_step_lock:
  assumes "am_inv (access_manager s)"
  shows "am_inv (access_manager (snd (call_step h (p, t, k) s)))"
    and "abs_table (access_manager (snd (call_step h (p, t, k) s))) =
      snd (snd (spec_step p t k (abs_table (access_manager s))))"
proof -
  let ?am = "snd (am_step (pick h, Call p t k) (access_manager s))"
  have inv: "am_inv ?am" by (rule am_step_inv [OF assms])
  have "abs_table ?am = snd (snd (spec_step p t k (abs_table (access_manager s))))"
    using am_refines_call [OF assms, of "pick h" p t k] by (auto simp: refines_call_def split: prod.splits)
  moreover have "access_manager (snd (handle_message h (registry_request k p t) s)) = ?am"
    using handle_message_state [of h p t k s] by (simp add: registry_request_def)
  moreover have "am_inv (snd (collect_granted am))" "abs_table (snd (collect_granted am)) = abs_table am"
    if "am_inv am" for am
    using that by (auto simp: am_inv_def abs_table_def collect_granted_def try_iter_def)
  ultimately show "am_inv (access_manager (snd (call_step h (p, t, k) s)))"
    "abs_table (access_manager (snd (call_step h (p, t, k) s))) =
      snd (snd (spec_step p t k (abs_table (access_manager s))))"
    using inv by (simp_all add: split_beta collect_requests_def)
qed

lemma transcript_lock:
  assumes "am_inv (access_manager s)"
  shows "abs_table (access_manager (snd (transcript h xs s))) = spec_run xs (abs_table (access_manager s))"
  using assms
proof (induction xs arbitrary: s)
  case (Cons x xs)
  obtain p t k where x: "x = (p, t, k)" by (metis prod.exhaust)
  from Cons.IH [OF call_step_lock(1) [OF Cons.prems, of h p t k]] call_step_lock(2) [OF Cons.prems, of h p t k]
  show ?case by (simp add: x spec_run_def split_beta Let_def del: call_step.simps)
qed (simp add: spec_run_def)

text \<open>
  What the specification says to whom: the answer its verdict determines to each request, and to every
  process it announces \<open>Success\<close>, or for a read the address of the creator of the key. \<open>C\<close> has the
  creators of the keys.
\<close>

definition creators_of :: "AccessManager \<Rightarrow> KeyId \<rightharpoonup> ProcId" where
  "creators_of am = (\<lambda>k. map_option creator (key_states am k))"

definition says_notice ::
  "(Token \<rightharpoonup> SocketAddr) \<Rightarrow> ProcId option \<Rightarrow> KeyId \<Rightarrow> ProcId \<times> mode \<Rightarrow> ProcId \<times> RegistryResponse \<Rightarrow> bool"
where
  "says_notice addrs c k g said \<longleftrightarrow> fst said = fst g \<and>
     (case snd g of
        ExclusiveMode \<Rightarrow> snd said = Success k
      | SharedMode \<Rightarrow> \<exists>p a. c = Some p \<and> addrs (Token p) = Some a \<and> snd said = Holder k a)"

fun spec_says ::
  "(Token \<rightharpoonup> SocketAddr) \<Rightarrow> (KeyId \<rightharpoonup> ProcId) \<Rightarrow> call list \<Rightarrow> lock_table \<Rightarrow>
     (ProcId \<times> RegistryResponse) list \<Rightarrow> bool"
where
  "spec_says addrs C [] T said \<longleftrightarrow> said = []"
| "spec_says addrs C ((p, t, k) # xs) T said \<longleftrightarrow>
     (let (v, gs, T') = spec_step p t k T;
          C' = (if t = Create \<and> v = Done then C(k \<mapsto> p) else C) in
      \<exists>r notes rest. said = (p, answer_to r) # notes @ rest \<and> answers addrs t p k v T' r \<and>
        list_all2 (says_notice addrs (C k) k) gs notes \<and> spec_says addrs C' xs T' rest)"

lemma spec_says_Cons:
  assumes "spec_step p t k T = (v, gs, T')" and "answers addrs t p k v T' r"
    and "list_all2 (says_notice addrs (C k) k) gs granted"
    and "spec_says addrs (if t = Create \<and> v = Done then C(k \<mapsto> p) else C) xs T' rest"
  shows "spec_says addrs C ((p, t, k) # xs) T ((p, answer_to r) # granted @ rest)"
  using assms(2-4) unfolding spec_says.simps assms(1) Let_def prod.case by blast

lemma creators_step:
  assumes "am_inv am"
  shows "creators_of (snd (am_step (pk, Call p t k) am)) \<subseteq>\<^sub>m
     (if t = Create \<and> key_states am k = None then (creators_of am)(k \<mapsto> p) else creators_of am)"
  by (cases t)
     (use assms in \<open>auto simp: creators_of_def map_le_def create_eq delete_eq read_access_eq write_access_eq
        release_eq put_key_state_def ks_defs creator_admit drop_holder_facts
        split: option.splits if_splits\<close>)

lemma created: "fst (spec_step p Create k (abs_table am)) = Done \<longleftrightarrow> key_states am k = None"
  by (simp add: abs_table_def split: option.split)

lemma call_step_said:
  assumes inv: "am_inv (access_manager s)" and order: "hash_iter (pick h)"
    and quiet: "buffer (access_granted (access_manager s)) = []"
    and known: "holders_known h (p, t, k) s" and C: "creators_of (access_manager s) \<subseteq>\<^sub>m C"
    and spec: "spec_step p t k (abs_table (access_manager s)) = (v, gs, T')"
  shows "\<exists>r granted. fst (call_step h (p, t, k) s) = (p, answer_to r) # granted \<and>
     answers (token_addr_map s) t p k v T' r \<and> list_all2 (says_notice (token_addr_map s) (C k) k) gs granted"
    and "buffer (access_granted (access_manager (snd (call_step h (p, t, k) s)))) = []"
    and "token_addr_map (snd (call_step h (p, t, k) s)) = token_addr_map s"
proof -
  let ?addrs = "token_addr_map s"
  obtain r s1 where msg: "handle_message h (registry_request k p t) s = (r, s1)" by fastforce
  have s1: "s1 = s\<lparr>access_manager := snd (am_step (pick h, Call p t k) (access_manager s))\<rparr>"
    using handle_message_state [of h p t k s] msg by (simp add: registry_request_def)
  have ans: "answers ?addrs t p k v T' r"
    using request_answer [OF inv order, of t p k] spec msg by (simp add: registry_request_def)
  obtain new where new: "buffer (access_granted (access_manager s1)) = new" "map abs_grant new = gs"
    and hold: "\<forall>g \<in> set new. fst (snd g) = k \<and> C k = Some (snd (snd (snd g)))"
  proof -
    from am_refines_call [OF inv, of "pick h" p t k] spec quiet obtain new where
      "buffer (access_granted (access_manager s1)) = new" "announcements k gs (access_manager s) new"
      by (auto simp: refines_call_def s1 split: prod.splits)
    moreover have "C k = Some (creator ks)" if "key_states (access_manager s) k = Some ks" for ks
    proof -
      have "creators_of (access_manager s) k = Some (creator ks)" using that by (simp add: creators_of_def)
      with C show ?thesis by (metis domI map_le_def)
    qed
    ultimately have "\<forall>g \<in> set new. fst (snd g) = k \<and> C k = Some (snd (snd (snd g)))"
      by (fastforce simp: announcements_def)
    with that \<open>announcements k gs (access_manager s) new\<close>
      \<open>buffer (access_granted (access_manager s1)) = new\<close>
    show ?thesis by (auto simp: announcements_def)
  qed
  have coll: "collect_requests s1 = (new, s1\<lparr>access_manager := snd (collect_granted (access_manager s1))\<rparr>)"
    using new by (simp add: collect_requests_def collect_granted_def try_iter_def)
  have granted: "list_all2 (says_notice ?addrs (C k) k) gs (told_to s new)"
  proof -
    have "list_all (holder_known ?addrs) new" using known msg coll by (simp add: holders_known_def)
    then show ?thesis
      using hold unfolding new(2) [symmetric]
      by (induction new)
         (auto simp: told_to_def says_notice_def abs_grant_def mode_of_def grant_response_def
            holder_known_def s1 split: prod.split)
  qed
  have gone: "gs = []" "buffer (access_granted (access_manager s1)) = []" if "\<not> is_ok r"
    using request_refused [OF inv msg that] quiet new by auto
  show "\<exists>r granted. fst (call_step h (p, t, k) s) = (p, answer_to r) # granted \<and>
     answers ?addrs t p k v T' r \<and> list_all2 (says_notice ?addrs (C k) k) gs granted"
    using ans granted gone msg coll by (cases "is_ok r") auto
  show "buffer (access_granted (access_manager (snd (call_step h (p, t, k) s)))) = []"
    using gone msg coll by (auto simp: collect_granted_def try_iter_def)
  show "token_addr_map (snd (call_step h (p, t, k) s)) = ?addrs"
    using msg coll s1 by auto
qed

lemma transcript_says:
  assumes "am_inv (access_manager s)" and "hash_iter (pick h)" and "goes_well h xs s"
    and "buffer (access_granted (access_manager s)) = []" and "creators_of (access_manager s) \<subseteq>\<^sub>m C"
  shows "spec_says (token_addr_map s) C xs (abs_table (access_manager s)) (fst (transcript h xs s))"
  using assms
proof (induction xs arbitrary: s C)
  case (Cons x xs)
  obtain p t k where x: "x = (p, t, k)" by (metis prod.exhaust)
  let ?am = "access_manager s"
  obtain v gs T' where spec: "spec_step p t k (abs_table ?am) = (v, gs, T')" by (metis prod.exhaust)
  obtain said s1 where step: "call_step h x s = (said, s1)" by fastforce
  have known: "holders_known h (p, t, k) s" and well: "goes_well h xs s1"
    using Cons.prems(3) step x by simp_all
  note one = call_step_said [OF Cons.prems(1,2,4) known Cons.prems(5) spec]
  let ?C = "if t = Create \<and> v = Done then C(k \<mapsto> p) else C"
  have "creators_of (access_manager s1) \<subseteq>\<^sub>m ?C"
  proof -
    have "creators_of (access_manager s1) = creators_of (snd (am_step (pick h, Call p t k) ?am))"
    proof -
      have "access_manager (snd (handle_message h (registry_request k p t) s)) =
          snd (am_step (pick h, Call p t k) ?am)"
        using handle_message_state [of h p t k s] by (simp add: registry_request_def)
      moreover have "creators_of (snd (collect_granted am)) = creators_of am" for am
        by (simp add: creators_of_def collect_granted_def try_iter_def)
      ultimately have "creators_of (access_manager (snd (call_step h x s))) =
          creators_of (snd (am_step (pick h, Call p t k) ?am))"
        by (simp add: x split_beta collect_requests_def)
      with step show ?thesis by simp
    qed
    moreover have "v = Done \<longleftrightarrow> key_states ?am k = None" if "t = Create"
      using created [of p k ?am] spec that by simp
    then have "(if t = Create \<and> key_states ?am k = None then (creators_of ?am)(k \<mapsto> p) else creators_of ?am) \<subseteq>\<^sub>m ?C"
      using Cons.prems(5) by (auto intro: map_le_upd)
    ultimately show ?thesis
      using map_le_trans [OF creators_step [OF Cons.prems(1), of "pick h" p t k]] by simp
  qed
  from Cons.IH [OF _ Cons.prems(2) well _ this] call_step_lock [OF Cons.prems(1), of h p t k] one(2,3) step spec
  have "spec_says (token_addr_map s) ?C xs T' (fst (transcript h xs s1))" by (simp add: x)
  moreover from one(1) step obtain r granted where "said = (p, answer_to r) # granted"
    "answers (token_addr_map s) t p k v T' r" "list_all2 (says_notice (token_addr_map s) (C k) k) gs granted"
    by (auto simp: x)
  moreover from this(1) have "fst (transcript h (x # xs) s) = (p, answer_to r) # granted @ fst (transcript h xs s1)"
    using step by (simp add: split_beta Let_def del: call_step.simps)
  ultimately show ?case using spec_says_Cons [OF spec] by (simp add: x)
qed simp

end
