(* ===== verification/Address.thy ===== *)
theory Address
  imports Net
begin

text \<open>
  What \<open>str::parse\<close> does for the arguments of the two programs: \<open>u16\<close> and \<open>SocketAddr\<close> of the
  standard library, and how an IPv4 socket address is displayed. A string is the list of its
  bytes.
\<close>

section \<open>Digits and numbers\<close>

definition digit_value :: "char \<Rightarrow> nat" where
  "digit_value c =
     (let n = of_char c :: nat in
      if 48 \<le> n \<and> n \<le> 57 then n - 48
      else if 65 \<le> n \<and> n \<le> 90 then n - 55
      else if 97 \<le> n \<and> n \<le> 122 then n - 87
      else 36)"

definition to_digit :: "nat \<Rightarrow> char \<Rightarrow> nat option" where
  "to_digit radix c = (if digit_value c < radix then Some (digit_value c) else None)"

text \<open>
  \<open>u16::from_str\<close>: an optional plus sign and at least one decimal digit, with checked arithmetic.
\<close>

fun checked_digits :: "nat \<Rightarrow> string \<Rightarrow> nat \<Rightarrow> nat option" where
  "checked_digits limit [] result = Some result"
| "checked_digits limit (c # cs) result =
     (case to_digit 10 c of
        None \<Rightarrow> None
      | Some d \<Rightarrow> if limit < result * 10 + d then None else checked_digits limit cs (result * 10 + d))"

definition parse_u16 :: "string \<Rightarrow> u16 option" where
  "parse_u16 s =
     (let digits = (case s of c # cs \<Rightarrow> if c = CHR ''+'' then cs else s | [] \<Rightarrow> [])
      in if digits = [] then None
         else map_option word_of_nat (checked_digits (2 ^ 16 - 1) digits 0))"

section \<open>The parser of addresses\<close>

text \<open>
  A method of the parser of \<open>std::net\<close>: a value and the rest of the text, or \<open>None\<close>. Every method
  used here restores the position when it fails, so the caller goes on with the text it had.
\<close>

type_synonym 'a reader = "string \<Rightarrow> ('a \<times> string) option"

definition and_read :: "'a reader \<Rightarrow> ('a \<Rightarrow> 'b reader) \<Rightarrow> 'b reader" where
  "and_read m f s = (case m s of None \<Rightarrow> None | Some (x, s') \<Rightarrow> f x s')"

lemma and_read_simps [simp]:
  "m s = None \<Longrightarrow> and_read m f s = None"
  "m s = Some (x, s') \<Longrightarrow> and_read m f s = f x s'"
  by (simp_all add: and_read_def)

fun read_given_char :: "char \<Rightarrow> unit reader" where
  "read_given_char c [] = None"
| "read_given_char c (x # xs) = (if x = c then Some ((), xs) else None)"

text \<open>The separator is read in front of every part but the first.\<close>

definition read_separator :: "char \<Rightarrow> nat \<Rightarrow> 'a reader \<Rightarrow> 'a reader" where
  "read_separator sep index inner =
     (if 0 < index then and_read (read_given_char sep) (\<lambda>_. inner) else inner)"

text \<open>
  A number with at most \<open>max_digits\<close> digits that has to fit below \<open>2 ^ width\<close>, and one with any
  number of digits, with checked arithmetic.
\<close>

fun digits_upto :: "nat \<Rightarrow> nat \<Rightarrow> nat \<Rightarrow> nat \<Rightarrow> (nat \<times> nat) reader" where
  "digits_upto radix max_digits result count [] = Some ((result, count), [])"
| "digits_upto radix max_digits result count (c # cs) =
     (case to_digit radix c of
        None \<Rightarrow> Some ((result, count), c # cs)
      | Some d \<Rightarrow>
          if max_digits < count + 1 then None
          else digits_upto radix max_digits (result * radix + d) (count + 1) cs)"

definition read_number :: "nat \<Rightarrow> nat \<Rightarrow> bool \<Rightarrow> nat \<Rightarrow> nat reader" where
  "read_number radix max_digits allow_zero_prefix width s =
     and_read (digits_upto radix max_digits 0 0) (\<lambda>(result, count) rest.
       if count = 0 then None
       else if \<not> allow_zero_prefix \<and> hd s = CHR ''0'' \<and> 1 < count then None
       else if result < 2 ^ width then Some (result, rest)
       else None) s"

fun digits_checked :: "nat \<Rightarrow> nat \<Rightarrow> nat \<Rightarrow> (nat \<times> nat) reader" where
  "digits_checked limit result count [] = Some ((result, count), [])"
| "digits_checked limit result count (c # cs) =
     (case to_digit 10 c of
        None \<Rightarrow> Some ((result, count), c # cs)
      | Some d \<Rightarrow>
          if limit < result * 10 + d then None
          else digits_checked limit (result * 10 + d) (count + 1) cs)"

definition read_any_number :: "nat \<Rightarrow> nat reader" where
  "read_any_number width =
     and_read (digits_checked (2 ^ width - 1) 0 0) (\<lambda>(result, count) rest.
       if count = 0 then None else Some (result, rest))"

text \<open>Four decimal groups, none with more than three digits or a leading zero.\<close>

definition read_octet :: "nat \<Rightarrow> nat reader" where
  "read_octet index = read_separator CHR ''.'' index (read_number 10 3 False 8)"

definition read_ipv4_addr :: "nat list reader" where
  "read_ipv4_addr =
     and_read (read_octet 0) (\<lambda>a.
     and_read (read_octet 1) (\<lambda>b.
     and_read (read_octet 2) (\<lambda>c.
     and_read (read_octet 3) (\<lambda>d rest. Some ([a, b, c, d], rest)))))"

text \<open>
  The groups of an IPv6 address from \<open>index\<close> up to \<open>limit\<close>, as far as they go; an embedded IPv4 address
  takes the place of the last two groups it reaches. The value is the list of groups and whether
  it ends with an embedded address.
\<close>

function read_groups :: "nat \<Rightarrow> nat \<Rightarrow> string \<Rightarrow> (nat list \<times> bool) \<times> string" where
  "read_groups limit index s =
     (if limit \<le> index then (([], False), s)
      else
        (case (if index < limit - 1 then read_separator CHR '':'' index read_ipv4_addr s else None) of
           Some ([one, two, three, four], rest) \<Rightarrow>
             (([one * 256 + two, three * 256 + four], True), rest)
         | _ \<Rightarrow>
             (case read_separator CHR '':'' index (read_number 16 4 True 16) s of
                Some (g, rest) \<Rightarrow>
                  (let ((gs, ipv4), rest) = read_groups limit (index + 1) rest in ((g # gs, ipv4), rest))
              | None \<Rightarrow> (([], False), s))))"
  by pat_completeness auto
termination by (relation "measure (\<lambda>(limit, index, _). limit - index)") auto

declare read_groups.simps [simp del]

text \<open>Eight groups, or fewer than eight around one \<open>::\<close>, which stands for at least one group of zeros.\<close>

definition read_ipv6_addr :: "nat list reader" where
  "read_ipv6_addr s =
     (case read_groups 8 0 s of ((head, head_ipv4), rest) \<Rightarrow>
        if length head = 8 then Some (head, rest)
        else if head_ipv4 then None
        else
          and_read (read_given_char CHR '':'') (\<lambda>_.
          and_read (read_given_char CHR '':'') (\<lambda>_ rest.
            case read_groups (8 - (length head + 1)) 0 rest of ((tail, _), rest) \<Rightarrow>
              Some (head @ replicate (8 - length head - length tail) 0 @ tail, rest))) rest)"

text \<open>The number that a list of groups makes, the first group in the highest bits.\<close>

definition from_groups :: "nat \<Rightarrow> nat list \<Rightarrow> nat" where
  "from_groups width gs = foldl (\<lambda>n g. n * 2 ^ width + g) 0 gs"

definition read_port :: "u16 reader" where
  "read_port =
     and_read (read_given_char CHR '':'') (\<lambda>_.
     and_read (read_any_number 16) (\<lambda>n rest. Some (word_of_nat n, rest)))"

definition read_scope_id :: "u32 reader" where
  "read_scope_id =
     and_read (read_given_char CHR ''%'') (\<lambda>_.
     and_read (read_any_number 32) (\<lambda>n rest. Some (word_of_nat n, rest)))"

definition read_socket_addr_v4 :: "SocketAddr reader" where
  "read_socket_addr_v4 =
     and_read read_ipv4_addr (\<lambda>groups.
     and_read read_port (\<lambda>port rest.
       Some (SocketAddrV4 (word_of_nat (from_groups 8 groups)) port, rest)))"

definition read_socket_addr_v6 :: "SocketAddr reader" where
  "read_socket_addr_v6 =
     and_read (read_given_char CHR ''['') (\<lambda>_.
     and_read read_ipv6_addr (\<lambda>groups.
     and_read (\<lambda>s. case read_scope_id s of None \<Rightarrow> Some (0, s) | Some r \<Rightarrow> Some r) (\<lambda>scope_id.
     and_read (read_given_char CHR '']'') (\<lambda>_.
     and_read read_port (\<lambda>port rest.
       Some (SocketAddrV6 (word_of_nat (from_groups 16 groups)) port 0 scope_id, rest))))))"

text \<open>\<open>SocketAddr::from_str\<close> wants the whole text to be one address.\<close>

definition parse_socket_addr :: "string \<Rightarrow> SocketAddr option" where
  "parse_socket_addr s =
     (case (case read_socket_addr_v4 s of None \<Rightarrow> read_socket_addr_v6 s | r \<Rightarrow> r) of
        Some (a, []) \<Rightarrow> Some a
      | _ \<Rightarrow> None)"

section \<open>Display\<close>

definition octets :: "u32 \<Rightarrow> nat list" where
  "octets ip = map (\<lambda>i. unat ip div 2 ^ (8 * i) mod 256) [3, 2, 1, 0]"

definition display_v4 :: "u32 \<Rightarrow> u16 \<Rightarrow> string" where
  "display_v4 ip port =
     (case octets ip of
        [a, b, c, d] \<Rightarrow>
          dec a @ ''.'' @ dec b @ ''.'' @ dec c @ ''.'' @ dec d @ '':'' @ dec (unat port)
      | _ \<Rightarrow> [])"

section \<open>Reading what is displayed\<close>

lemma digit_char [simp]: "n < 10 \<Longrightarrow> digit_value (char_of (48 + n)) = n"
  by (simp add: digit_value_def Let_def)

lemma dec_small: "n < 10 \<Longrightarrow> dec n = [char_of (48 + n)]"
  by (simp add: dec.simps)

lemma dec_big: "10 \<le> n \<Longrightarrow> dec n = dec (n div 10) @ [char_of (48 + n mod 10)]"
  by (simp add: dec.simps)

lemma dec_nonempty [simp]: "dec n \<noteq> []"
  by (cases "n < 10") (simp_all add: dec_small dec_big)

lemma dec_no_zero: "10 \<le> n \<Longrightarrow> hd (dec n) \<noteq> CHR ''0''"
proof (induction n rule: dec.induct)
  case (1 n)
  show ?case
  proof (cases "n div 10 < 10")
    case True
    with 1(2) have "hd (dec n) = char_of (48 + n div 10)" "0 < n div 10"
      by (simp_all add: dec_big dec_small)
    moreover have "digit_value (char_of (48 + n div 10)) = n div 10" by (rule digit_char [OF True])
    moreover have "digit_value CHR ''0'' = 0" by (simp add: digit_value_def)
    ultimately show ?thesis by auto
  next
    case False
    with 1 show ?thesis by (simp add: dec_big)
  qed
qed

lemma dec_length: "n < 256 \<Longrightarrow> length (dec n) \<le> 3" and dec_length_1: "1 < length (dec n) \<Longrightarrow> 10 \<le> n"
proof -
  assume small: "n < 256"
  show "length (dec n) \<le> 3"
  proof (cases "n < 100")
    case True
    then have "dec (n div 10) = [char_of (48 + n div 10)]" by (intro dec_small) simp
    then show ?thesis by (cases "n < 10") (simp_all add: dec_big dec_small)
  next
    case False
    have "dec (n div 10 div 10) = [char_of (48 + n div 10 div 10)]" using small by (intro dec_small) simp
    moreover have "dec (n div 10) = dec (n div 10 div 10) @ [char_of (48 + n div 10 mod 10)]"
      using False by (intro dec_big) simp
    moreover have "dec n = dec (n div 10) @ [char_of (48 + n mod 10)]" using False by (intro dec_big) simp
    ultimately show ?thesis by simp
  qed
next
  assume "1 < length (dec n)"
  then show "10 \<le> n" by (cases "n < 10") (simp_all add: dec_small)
qed

text \<open>The three loops over digits read a decimal text, and go on behind it.\<close>

lemma loops_read_dec:
  "r * 10 ^ length (dec n) + n \<le> limit \<Longrightarrow>
     checked_digits limit (dec n @ rest) r = checked_digits limit rest (r * 10 ^ length (dec n) + n)"
  "r * 10 ^ length (dec n) + n \<le> limit \<Longrightarrow>
     digits_checked limit r k (dec n @ rest) =
       digits_checked limit (r * 10 ^ length (dec n) + n) (k + length (dec n)) rest"
  "k + length (dec n) \<le> max_digits \<Longrightarrow>
     digits_upto 10 max_digits r k (dec n @ rest) =
       digits_upto 10 max_digits (r * 10 ^ length (dec n) + n) (k + length (dec n)) rest"
proof (induction n arbitrary: rest rule: dec.induct)
  case (1 n)
  note IH = 1
  have last: "(r * 10 ^ length (dec (n div 10)) + n div 10) * 10 + n mod 10 =
      r * (10 * 10 ^ length (dec (n div 10))) + n"
    by (simp add: algebra_simps)
  { case 1
    show ?case
    proof (cases "n < 10")
      case False
      have "r * 10 ^ length (dec (n div 10)) + n div 10 \<le> limit"
        using 1 False last by (simp add: dec_big)
      with False 1 IH(1) last show ?thesis by (simp add: dec_big to_digit_def algebra_simps)
    qed (use 1 in \<open>simp add: dec_small to_digit_def\<close>) }
  { case 2
    show ?case
    proof (cases "n < 10")
      case False
      have "r * 10 ^ length (dec (n div 10)) + n div 10 \<le> limit"
        using 2 False last by (simp add: dec_big)
      with False 2 IH(2) last show ?thesis by (simp add: dec_big to_digit_def algebra_simps)
    qed (use 2 in \<open>simp add: dec_small to_digit_def\<close>) }
  { case 3
    show ?case
    proof (cases "n < 10")
      case False
      then have "k + length (dec (n div 10)) \<le> max_digits" using 3 by (simp add: dec_big)
      with False IH(3) 3 last show ?thesis by (simp add: dec_big to_digit_def algebra_simps)
    qed (use 3 in \<open>simp add: dec_small to_digit_def\<close>) }
qed

text \<open>A text that does not go on with a digit.\<close>

definition no_digit :: "string \<Rightarrow> bool" where
  "no_digit s \<longleftrightarrow> (case s of [] \<Rightarrow> True | c # _ \<Rightarrow> to_digit 10 c = None)"

lemma loops_stop:
  "no_digit rest \<Longrightarrow> digits_upto 10 max_digits r k rest = Some ((r, k), rest)"
  "no_digit rest \<Longrightarrow> digits_checked limit r k rest = Some ((r, k), rest)"
  by (cases rest; simp add: no_digit_def)+

lemma read_octet_dec:
  assumes "n < 256" and "no_digit rest"
  shows "read_number 10 3 False 8 (dec n @ rest) = Some (n, rest)"
proof -
  have "digits_upto 10 3 0 0 (dec n @ rest) = Some ((n, length (dec n)), rest)"
    using loops_read_dec(3) [of 0 n 3 0 rest] dec_length [OF assms(1)] assms(2)
    by (simp add: loops_stop)
  then show ?thesis
    using assms(1) dec_no_zero [of n] dec_length_1 [of n] by (auto simp: read_number_def)
qed

lemma read_any_dec:
  assumes "n < 2 ^ width" and "no_digit rest"
  shows "read_any_number width (dec n @ rest) = Some (n, rest)"
proof -
  have "digits_checked (2 ^ width - 1) 0 0 (dec n @ rest) = Some ((n, length (dec n)), rest)"
    using loops_read_dec(2) [of 0 n "2 ^ width - 1" 0 rest] assms by (simp add: loops_stop)
  then show ?thesis by (simp add: read_any_number_def)
qed

lemma unat_u16: "unat (port :: u16) < 2 ^ 16"
proof -
  have "unat port < 2 ^ LENGTH(16)" by (rule unsigned_less)
  then show ?thesis by simp
qed

lemma parse_u16_dec: "parse_u16 (dec (unat port)) = Some port"
proof -
  have "unat port \<le> 2 ^ 16 - 1" using unat_u16 [of port] by simp
  with loops_read_dec(1) [of 0 "unat port" "2 ^ 16 - 1" "[]"]
  have "checked_digits (2 ^ 16 - 1) (dec (unat port)) 0 = Some (unat port)" by simp
  moreover have plus: "hd (dec n) \<noteq> CHR ''+''" for n
  proof (induction n rule: dec.induct)
    case (1 n)
    have "char_of (48 + n) \<noteq> CHR ''+''" if "n < 10"
    proof
      assume "char_of (48 + n) = CHR ''+''"
      with digit_char [OF that] have "digit_value CHR ''+'' = n" by metis
      with that show False by (simp add: digit_value_def)
    qed
    with 1 show ?case by (cases "n < 10") (auto simp: dec_small dec_big)
  qed
  ultimately show ?thesis
    using plus [of "unat port"]
    by (cases "dec (unat port)") (auto simp: parse_u16_def simp del: checked_digits.simps)
qed

lemma octets_sum: "from_groups 8 (octets ip) = unat ip"
proof -
  have four: "((n div 256 div 256 div 256 mod 256 * 256 + n div 256 div 256 mod 256) * 256 +
      n div 256 mod 256) * 256 + n mod 256 = n" if "n < 256 * 256 * 256 * 256" for n :: nat
  proof -
    define x y z where "x = n div 256" and "y = x div 256" and "z = y div 256"
    have "z < 256" using that by (simp add: x_def y_def z_def div_mult2_eq [symmetric] div_less_iff_less_mult)
    then have "z mod 256 = z" by simp
    moreover have "z * 256 + y mod 256 = y" "y * 256 + x mod 256 = x" "x * 256 + n mod 256 = n"
      unfolding x_def y_def z_def by (rule div_mult_mod_eq)+
    ultimately show ?thesis unfolding x_def [symmetric] y_def [symmetric] z_def [symmetric] by simp
  qed
  have "unat ip < 2 ^ LENGTH(32)" by (rule unsigned_less)
  then have "unat ip < 256 * 256 * 256 * 256" by simp
  moreover from this have "unat ip div 16777216 mod 256 = unat ip div 16777216" by simp
  ultimately show ?thesis using four [of "unat ip"]
    by (simp add: from_groups_def octets_def div_mult2_eq [symmetric])
qed

lemma parse_displayed_v4: "parse_socket_addr (display_v4 ip port) = Some (SocketAddrV4 ip port)"
proof -
  obtain a b c d where oct: "octets ip = [a, b, c, d]" by (simp add: octets_def)
  have small: "a < 256" "b < 256" "c < 256" "d < 256" using oct by (auto simp: octets_def)
  have stop: "no_digit (CHR ''.'' # s)" "no_digit (CHR '':'' # s)" "no_digit []" for s
    by (simp_all add: no_digit_def to_digit_def digit_value_def)
  with small have "read_socket_addr_v4 (display_v4 ip port) =
      Some (SocketAddrV4 (word_of_nat (from_groups 8 [a, b, c, d])) (word_of_nat (unat port)), [])"
    using read_octet_dec [OF small(1) stop(1)] read_octet_dec [OF small(2) stop(1)]
      read_octet_dec [OF small(3) stop(1)] read_octet_dec [OF small(4) stop(2)]
      read_any_dec [OF unat_u16 stop(3), of port]
    by (simp add: display_v4_def oct read_socket_addr_v4_def read_ipv4_addr_def read_octet_def
        read_separator_def read_port_def stop and_read_def)
  then show ?thesis by (simp add: parse_socket_addr_def oct [symmetric] octets_sum)
qed

text \<open>What is displayed is ASCII.\<close>

lemma digit_ascii: "n < 10 \<Longrightarrow> of_char (char_of (48 + n)) \<le> (0x7F :: byte)" for n :: nat
proof -
  assume "n < 10"
  then have "n = 0 \<or> n = 1 \<or> n = 2 \<or> n = 3 \<or> n = 4 \<or> n = 5 \<or> n = 6 \<or> n = 7 \<or> n = 8 \<or> n = 9" by arith
  then show ?thesis by (auto simp: char_of_def bit_0)
qed

lemma dec_ascii: "c \<in> set (dec n) \<Longrightarrow> of_char c \<le> (0x7F :: byte)"
proof (induction n rule: dec.induct)
  case (1 n)
  then show ?case
    by (cases "n < 10") (auto simp: dec_small dec_big digit_ascii)
qed

lemma dec_utf8: "utf8_valid (map of_char (dec n))"
  by (rule utf8_ascii) (auto simp: dec_ascii)

lemma display_utf8: "utf8_valid (map of_char (display_v4 ip port))"
  by (rule utf8_ascii) (auto simp: display_v4_def octets_def dec_ascii)

end
