(* ===== verification/Programs.thy ===== *)
theory Programs
  imports Registry_Server Protocol_Client P2P_Server Address
begin

text \<open>
  The two programs of \<open>src/bin\<close> that run the library: the registry server (\<open>server.rs\<close>) and the
  example client (\<open>client.rs\<close>) with its scenarios. Pauses (\<open>sleep\<close>) have no effect on the state of a
  thread and are left out; what another thread or process does in the meantime is in the arguments
  (the streams, the results of \<open>connect\<close>). \<open>info_on\<close> says whether log records of the level \<open>info\<close>, the
  default of both programs, are enabled: some of them read the data store.
\<close>

section \<open>Arguments\<close>

text \<open>
  \<open>env::args()\<close> panics on an argument that is not Unicode; \<open>args[i]\<close> panics behind the end; \<open>expect\<close>
  panics when an argument does not parse.
\<close>

definition collect_args :: "string list \<Rightarrow> ('e, string list) outcome" where
  "collect_args argv =
     (if list_all (\<lambda>a. utf8_valid (map of_char a)) argv then Ok argv else Panic UnwrapErr)"

definition index_arg :: "string list \<Rightarrow> nat \<Rightarrow> ('e, string) outcome" where
  "index_arg args i = (if i < length args then Ok (args ! i) else Panic OutOfBounds)"

definition expect_parsed :: "'a option \<Rightarrow> ('e, 'a) outcome" where
  "expect_parsed r = (case r of Some x \<Rightarrow> Ok x | None \<Rightarrow> Panic UnwrapErr)"

text \<open>The rest of a function behind an outcome.\<close>

fun bind_outcome :: "('e, 'a) outcome \<Rightarrow> ('a \<Rightarrow> ('e, 'b) outcome) \<Rightarrow> ('e, 'b) outcome" where
  "bind_outcome (Ok x) f = f x"
| "bind_outcome (Err e) f = Err e"
| "bind_outcome (Panic p) f = Panic p"
| "bind_outcome (Exit n) f = Exit n"

section \<open>The registry server\<close>

text \<open>
  \<open>main\<close> of \<open>server.rs\<close>: \<open>connect\<close>, \<open>new_poll\<close>, \<open>listen\<close> and \<open>polls\<close> are the results of the calls of the
  operating system that \<open>new\<close> and \<open>bind\<close> make. The value is \<open>None\<close> when the program ends without a
  server, and otherwise whether the server still waits for events, with its state.
\<close>

definition server_main ::
  "host \<Rightarrow> (SocketAddr \<Rightarrow> (io_error, TcpStream) outcome) \<Rightarrow> (io_error, Poll) outcome \<Rightarrow>
     (io_error, unit) outcome \<Rightarrow> (io_error + poll_event list) list \<Rightarrow> string list \<Rightarrow>
     (RegistryServerError, (bool \<times> RegistryServer) option) outcome"
where
  "server_main h connect new_poll listen polls argv =
     bind_outcome (collect_args argv) (\<lambda>args.
       if length args < 2 then bind_outcome (index_arg args 0) (\<lambda>_. Ok None)
       else
         bind_outcome (index_arg args 1) (\<lambda>arg.
         bind_outcome (expect_parsed (parse_u16 arg)) (\<lambda>primary_port.
           let secondary = (if 2 < length args then parse_socket_addr (args ! 2) else None) in
           bind_outcome (new_registry_server connect new_poll primary_port secondary)
             (\<lambda>registry_server.
                let (r, registry_server) = bind_server h listen polls registry_server
                in map_ok (\<lambda>running. Some (running, registry_server)) r))))"

section \<open>The errors of the example client\<close>

datatype ClientError =
    ProtocolError ProtocolClientError
  | PeerError P2PServerError
  | StoreError DataStoreError

text \<open>
  A function of the client, with the state it works on; \<open>None\<close> as in the client library. The
  three conversions of \<open>?\<close>, and \<open>let _ = ..\<close>, which drops the outcome of a call.
\<close>

type_synonym ('s, 'a) program = "((ClientError, 'a) outcome \<times> 's) option"

definition calling :: "('s, 'a) running \<Rightarrow> ('s, 'a) program" where
  "calling r = map_option (apfst (map_err ProtocolError)) r"

definition ignoring :: "('s, 'a) running \<Rightarrow> ('s, unit) running" where
  "ignoring r =
     (case r of
        Some (Err _, s) \<Rightarrow> Some (Ok (), s)
      | _ \<Rightarrow> map_option (apfst (map_ok (\<lambda>_. ()))) r)"

section \<open>The client of the registry\<close>

definition create_protocol_client ::
  "host \<Rightarrow> (nat \<Rightarrow> SocketAddr \<Rightarrow> dial) \<Rightarrow> string list \<Rightarrow> (ProtocolClientError, ProtocolClient) outcome option"
where
  "create_protocol_client h dial_to argv =
     (case
        bind_outcome (collect_args argv) (\<lambda>args.
          if length args \<noteq> 3 then
            bind_outcome (index_arg args 0) (\<lambda>name.
              Panic (Explicit (''Usage: '' @ name @
                '' <primary hostname:primary port> <secondary hostname:secondary port>'')))
          else
            bind_outcome (expect_parsed (parse_socket_addr (args ! 1))) (\<lambda>primary.
            bind_outcome (expect_parsed (parse_socket_addr (args ! 2))) (\<lambda>secondary.
              Ok (primary, secondary)))) of
        Ok (primary, secondary) \<Rightarrow>
          new_protocol_client h primary secondary (dial_to 0 primary) (dial_to 1 secondary)
      | Err e \<Rightarrow> Some (Err e)
      | Panic p \<Rightarrow> Some (Panic p)
      | Exit n \<Rightarrow> Some (Exit n))"

text \<open>
  A function that makes a client and goes on with it; the state it leaves, when it gets that far.
\<close>

definition with_client ::
  "(ProtocolClientError, ProtocolClient) outcome option \<Rightarrow> (ProtocolClient \<Rightarrow> ('s, unit) program) \<Rightarrow>
     ((ClientError, unit) outcome \<times> 's option) option"
where
  "with_client created body =
     (case created of
        None \<Rightarrow> None
      | Some (Ok client) \<Rightarrow> map_option (apsnd Some) (body client)
      | Some (Err e) \<Rightarrow> Some (Err (ProtocolError e), None)
      | Some (Panic p) \<Rightarrow> Some (Panic p, None)
      | Some (Exit n) \<Rightarrow> Some (Exit n, None))"

section \<open>The peer-to-peer scenario\<close>

text \<open>
  The thread of a client that serves its data store shares the store with the thread that spawns
  it. Both take the mutex of the store for one operation at a time, and an event of the server
  takes it once at most, so what the two threads do is a list of tagged steps: operations of
  the application (\<open>Owner\<close>) and events of the server (\<open>Peer\<close>), in any order.
\<close>

datatype thread_event = Owner store_op | Peer peer_event

fun shared_event :: "host \<Rightarrow> thread_event \<Rightarrow> unit p2p_action" where
  "shared_event h (Owner x) s = (Ok (), s\<lparr>data_store := snd (data_store_step x (data_store s))\<rparr>)"
| "shared_event h (Peer e) s = p2p_event h e s"

fun shared_events :: "host \<Rightarrow> thread_event list \<Rightarrow> unit p2p_action" where
  "shared_events h [] s = (Ok (), s)"
| "shared_events h (e # es) s = and_then (shared_event h e) (\<lambda>_. shared_events h es) s"

text \<open>The loop of \<open>bind\<close>: the results of \<open>poll\<close>, with the steps of the application among the events.\<close>

fun shared_loop :: "host \<Rightarrow> (io_error + thread_event list) list \<Rightarrow> unit p2p_action" where
  "shared_loop h [] s = (Ok (), s)"
| "shared_loop h (Inl e # rest) s = (Panic UnwrapErr, s)"
| "shared_loop h (Inr events # rest) s = and_then (shared_events h events) (\<lambda>_. shared_loop h rest) s"

definition shared_bind ::
  "host \<Rightarrow> (io_error, unit) outcome \<Rightarrow> (io_error + thread_event list) list \<Rightarrow> unit p2p_action"
where
  "shared_bind h listen polls =
     and_then (\<lambda>s. (map_err PeerIoError listen, s)) (\<lambda>_.
     and_then (p2p_register (Token 0)) (\<lambda>_. shared_loop h polls))"

text \<open>
  The thread; \<open>port\<close> is 6001 for the first client and 6002 for the second. The loop of the server
  does not end, so the value is the server as it is behind the given steps.
\<close>

definition p2p_thread ::
  "host \<Rightarrow> (io_error, Poll) outcome \<Rightarrow> (io_error, unit) outcome \<Rightarrow> (io_error + thread_event list) list \<Rightarrow>
     u16 \<Rightarrow> DataStore \<Rightarrow> (P2PServerError, P2PServer) outcome"
where
  "p2p_thread h new_poll listen polls port shared_datastore =
     bind_outcome (new_p2p_server new_poll shared_datastore (SocketAddrV4 0 port)) (\<lambda>server.
       let (r, server) = shared_bind h listen polls server in map_ok (\<lambda>_. server) r)"

text \<open>When the application does nothing, this is the server of the library.\<close>

lemma shared_events_peers: "shared_events h (map Peer es) = p2p_events h es"
proof
  show "shared_events h (map Peer es) s = p2p_events h es s" for s
    by (induction es arbitrary: s) (simp_all add: and_then_def split: prod.split outcome.split)
qed

lemma shared_loop_peers: "shared_loop h (map (map_sum id (map Peer)) polls) = p2p_loop h polls"
proof
  show "shared_loop h (map (map_sum id (map Peer)) polls) s = p2p_loop h polls s" for s
    by (induction h polls s rule: p2p_loop.induct)
       (simp_all add: shared_events_peers and_then_def split: prod.split outcome.split)
qed

lemma shared_bind_peers: "shared_bind h listen (map (map_sum id (map Peer)) polls) = p2p_bind h listen polls"
  by (simp add: shared_bind_def p2p_bind_def shared_loop_peers)

text \<open>What the thread makes are reachable states of the server, whatever the application does.\<close>

lemma shared_event_reachable:
  "p2p_reachable s \<Longrightarrow> shared_event h e s = (Ok (), s') \<Longrightarrow> p2p_reachable s'"
  by (cases e) (auto intro: p2p_reachable.intros)

lemma shared_events_reachable:
  "p2p_reachable s \<Longrightarrow> shared_events h es s = (Ok (), s') \<Longrightarrow> p2p_reachable s'"
proof (induction es arbitrary: s)
  case (Cons e es)
  then show ?case
    by (auto simp: and_then_def split: prod.splits outcome.splits dest: shared_event_reachable)
qed simp

lemma shared_loop_reachable:
  "p2p_reachable s \<Longrightarrow> shared_loop h polls s = (Ok (), s') \<Longrightarrow> p2p_reachable s'"
proof (induction h polls s rule: shared_loop.induct)
  case (3 h events rest s)
  then show ?case
    by (auto simp: and_then_def split: prod.splits outcome.splits dest: shared_events_reachable)
qed simp_all

lemma thread_reachable:
  assumes "p2p_thread h new_poll listen polls port (snd (run_ops data_store_step xs new_data_store)) = Ok s"
  shows "p2p_reachable s"
proof -
  let ?ds = "snd (run_ops data_store_step xs new_data_store)"
  obtain pl where "new_poll = Ok pl" using assms by (cases new_poll) (auto simp: p2p_thread_def new_p2p_server_def)
  obtain r pl' where reg: "poll_register (Token 0) pl = (r, pl')" by fastforce
  let ?s = "\<lparr>peer_addr = SocketAddrV4 0 port, data_store = ?ds, peer_stream_map = Map.empty,
    peer_poll = pl', token_counter = 0\<rparr>"
  have "p2p_reachable ?s"
    by (rule p2p_reachable.start [of "Ok pl'" xs "SocketAddrV4 0 port"]) (simp add: new_p2p_server_def)
  moreover obtain q t where loop: "shared_loop h polls ?s = (q, t)" by fastforce
  moreover from this have "q = Ok ()" "t = s"
    using assms reg \<open>new_poll = Ok pl\<close>
    by (cases listen; cases r; cases q; simp add: p2p_thread_def new_p2p_server_def shared_bind_def
        and_then_def p2p_register_def)+
  ultimately show ?thesis by (auto intro: shared_loop_reachable)
qed

text \<open>The steps of the application in what the two threads do.\<close>

fun owner_ops :: "thread_event list \<Rightarrow> store_op list" where
  "owner_ops [] = []"
| "owner_ops (Owner x # es) = x # owner_ops es"
| "owner_ops (Peer e # es) = owner_ops es"

lemma peer_event_store:
  assumes "p2p_reachable s"
  shows "data_store (snd (p2p_event h e s)) = data_store s"
proof -
  have conn: "data_store (snd (p2p_handle_connection st s)) = data_store s" for st s
    by (auto simp: p2p_handle_connection_def p2p_register_def and_then_def split: prod.split outcome.split)
  have accept: "data_store (snd (p2p_accept_loop accepts s)) = data_store s" for accepts s
  proof (induction accepts s rule: p2p_accept_loop.induct)
    case (2 stream a rest s)
    then show ?case using conn [of stream s] by (auto simp: and_then_def split: prod.split outcome.split)
  qed simp_all
  have data: "data_store (snd (p2p_handle_data h tok s)) = data_store s" for tok
    using p2p_handle_data_footprint [of s h tok] p2p_reachable_inv [OF assms]
    by (simp add: p2p_inv_def p2p_footprint_def)
  obtain tok readable accepts where e: "e = PeerEvent tok readable accepts" by (cases e)
  obtain r s' where hd: "p2p_handle_data h tok s = (r, s')" by fastforce
  with data [of tok] have "data_store s' = data_store s" by simp
  with accept hd show ?thesis by (cases r) (simp_all add: e)
qed

lemma shared_events_store:
  assumes "p2p_reachable s" and "shared_events h es s = (Ok (), s')"
  shows "data_store s' = snd (run_ops data_store_step (owner_ops es) (data_store s))"
  using assms
proof (induction es arbitrary: s)
  case (Cons e es)
  obtain s1 where s1: "shared_event h e s = (Ok (), s1)" "shared_events h es s1 = (Ok (), s')"
    using Cons.prems(2) by (auto simp: and_then_def split: prod.splits outcome.splits)
  have "data_store s' = snd (run_ops data_store_step (owner_ops es) (data_store s1))"
    by (rule Cons.IH [OF shared_event_reachable [OF Cons.prems(1) s1(1)] s1(2)])
  moreover have "data_store s1 =
      (case e of Owner x \<Rightarrow> snd (data_store_step x (data_store s)) | Peer _ \<Rightarrow> data_store s)"
    using s1(1) peer_event_store [OF Cons.prems(1), of h] by (cases e) (auto, metis snd_conv)
  ultimately show ?case by (cases e) (simp_all add: split_beta Let_def)
qed simp

text \<open>A step on the client or on the data store of a scenario, and a log record that shows a text.\<close>

type_synonym scenario_state = "ProtocolClient \<times> DataStore"

definition client_call ::
  "(ProtocolClient \<Rightarrow> (ProtocolClient, 'a) running) \<Rightarrow> scenario_state \<Rightarrow> (scenario_state, 'a) program"
where
  "client_call m s = map_option (\<lambda>(r, client). (r, client, snd s)) (calling (m (fst s)))"

definition store_call :: "'a ds_action \<Rightarrow> scenario_state \<Rightarrow> (scenario_state, 'a) program" where
  "store_call m s = (let (r, store) = m (snd s) in Some (map_err StoreError r, fst s, store))"

definition log_text :: "bool \<Rightarrow> KeyId \<Rightarrow> scenario_state \<Rightarrow> (scenario_state, unit) program" where
  "log_text info_on key s =
     (if info_on then
        (case store_get key (snd s) of
           (Panic p, store) \<Rightarrow> Some (Panic p, fst s, store)
         | (Exit n, store) \<Rightarrow> Some (Exit n, fst s, store)
         | (_, store) \<Rightarrow> Some (Ok (), fst s, store))
      else Some (Ok (), s))"

text \<open>
  The two clients. \<open>d i\<close> is what a connection to the secondary registry gives in the \<open>i\<close>-th call, should
  the call make one, and \<open>conn\<close> the connection to the first client.
\<close>

definition client1_body ::
  "host \<Rightarrow> bool \<Rightarrow> (nat \<Rightarrow> dial) \<Rightarrow> KeyId \<Rightarrow> scenario_state \<Rightarrow> (scenario_state, unit) program"
where
  "client1_body h info_on d data_key s =
     then_run (client_call (registry_create h (d 0) data_key) s) (\<lambda>_ s.
     then_run (store_call (store_create data_key ''inital data fom client 1'') s) (\<lambda>_ s.
     then_run (log_text info_on data_key s) (\<lambda>_ s.
     then_run (client_call (\<lambda>c. ignoring (registry_create h (d 1) data_key c)) s) (\<lambda>_ s.
     then_run (client_call (registry_write_sync h (d 2) data_key) s) (\<lambda>_ s.
     then_run (store_call (store_write data_key ''new data from client 1'') s) (\<lambda>_ s.
     then_run (log_text info_on data_key s) (\<lambda>_ s.
     client_call (registry_release h (d 3) data_key) s)))))))"

definition p2p_client1 ::
  "host \<Rightarrow> bool \<Rightarrow> (nat \<Rightarrow> SocketAddr \<Rightarrow> dial) \<Rightarrow> (nat \<Rightarrow> dial) \<Rightarrow> string list \<Rightarrow>
     ((ClientError, unit) outcome \<times> scenario_state option) option"
where
  "p2p_client1 h info_on dial_to d argv =
     with_client (create_protocol_client h dial_to argv) (\<lambda>client.
       client1_body h info_on d 1 (client\<lparr>logging := False\<rparr>, new_data_store))"

definition client2_body ::
  "host \<Rightarrow> bool \<Rightarrow> (nat \<Rightarrow> dial) \<Rightarrow> (io_error, TcpStream) outcome \<Rightarrow> KeyId \<Rightarrow> scenario_state \<Rightarrow>
     (scenario_state, unit) program"
where
  "client2_body h info_on d conn data_key s =
     then_run (client_call (\<lambda>c. ignoring (registry_create h (d 0) data_key c)) s) (\<lambda>_ s.
     then_run (client_call (registry_read_sync h (d 1) data_key) s) (\<lambda>_ s.
     then_run (client_call (\<lambda>c. Some (fst (p2p_read h conn data_key), c)) s) (\<lambda>data s.
     then_run (store_call (store_create data_key data) s) (\<lambda>_ s.
     then_run (log_text info_on data_key s) (\<lambda>_ s.
     then_run (client_call (registry_release h (d 2) data_key) s) (\<lambda>_ s.
     client_call (registry_delete h (d 3) data_key) s))))))"

definition p2p_client2 ::
  "host \<Rightarrow> bool \<Rightarrow> (nat \<Rightarrow> SocketAddr \<Rightarrow> dial) \<Rightarrow> (nat \<Rightarrow> dial) \<Rightarrow>
     (SocketAddr \<Rightarrow> (io_error, TcpStream) outcome) \<Rightarrow> string list \<Rightarrow>
     ((ClientError, unit) outcome \<times> scenario_state option) option"
where
  "p2p_client2 h info_on dial_to d connect argv =
     with_client (create_protocol_client h dial_to argv) (\<lambda>client.
       client2_body h info_on d (connect (SocketAddrV4 0 6001)) 1 (client\<lparr>logging := False\<rparr>, new_data_store))"

text \<open>
  The end of a thread whose result is only logged, and the two joins; a thread that panicked
  panics the thread that joins it.
\<close>

definition join_logged :: "(ClientError, unit) outcome option \<Rightarrow> (ClientError, unit) outcome option" where
  "join_logged r =
     map_option (\<lambda>r. case r of Panic _ \<Rightarrow> Panic UnwrapErr | Exit n \<Rightarrow> Exit n | _ \<Rightarrow> Ok ()) r"

definition p2p ::
  "(ClientError, unit) outcome option \<Rightarrow> (ClientError, unit) outcome option \<Rightarrow>
     (ClientError, unit) outcome option"
where
  "p2p client1 client2 =
     (case join_logged client1 of
        Some (Ok _) \<Rightarrow> join_logged client2
      | r \<Rightarrow> r)"

text \<open>\<open>main\<close> runs the scenario in a thread of its own and logs its error.\<close>

definition client_main ::
  "(ClientError, unit) outcome option \<Rightarrow> (ClientError, unit) outcome option \<Rightarrow>
     (ClientError, unit) outcome option"
where
  "client_main client1 client2 = join_logged (p2p client1 client2)"

section \<open>The two other scenarios\<close>

definition basic_body :: "host \<Rightarrow> (nat \<Rightarrow> dial) \<Rightarrow> ProtocolClient \<Rightarrow> (ProtocolClient, unit) running" where
  "basic_body h d c =
     then_run (registry_create h (d 0) 1 c) (\<lambda>_ c.
     then_run (ignoring (registry_create h (d 1) 1 c)) (\<lambda>_ c.
     then_run (registry_write_sync h (d 2) 1 c) (\<lambda>_ c.
     then_run (registry_release h (d 3) 1 c) (\<lambda>_ c.
     then_run (registry_read_sync h (d 4) 1 c) (\<lambda>_ c.
     then_run (registry_release h (d 5) 1 c) (\<lambda>_ c.
     then_run (registry_delete h (d 6) 1 c) (\<lambda>_ c.
     then_run (registry_create h (d 7) 2 c) (\<lambda>_ c.
     then_run (registry_write_sync h (d 8) 2 c) (\<lambda>_ c.
     registry_release h (d 9) 2 c)))))))))"

definition basic_usage ::
  "host \<Rightarrow> (nat \<Rightarrow> SocketAddr \<Rightarrow> dial) \<Rightarrow> (nat \<Rightarrow> dial) \<Rightarrow> string list \<Rightarrow>
     ((ClientError, unit) outcome \<times> ProtocolClient option) option"
where
  "basic_usage h dial_to d argv =
     with_client (create_protocol_client h dial_to argv) (\<lambda>c. calling (basic_body h d c))"

definition advanced_body :: "host \<Rightarrow> (nat \<Rightarrow> dial) \<Rightarrow> ProtocolClient \<Rightarrow> (ProtocolClient, unit) running" where
  "advanced_body h d c =
     then_run (ignoring (registry_create h (d 0) 2 c)) (\<lambda>_ c.
     then_run (registry_write_sync h (d 1) 2 c) (\<lambda>_ c.
     then_run (registry_read h (d 2) 2 c) (\<lambda>_ c.
     then_run
       (handle_wait_error (registry_await_read h c) (\<lambda>c.
          then_run (registry_release h (d 3) 2 c) (\<lambda>_ c.
          then_run (registry_await_read h c) (\<lambda>_ c. Some (Ok (), c)))))
       (\<lambda>_ c.
     then_run (registry_release h (d 4) 2 c) (\<lambda>_ c.
     then_run (registry_read_sync h (d 5) 2 c) (\<lambda>_ c.
     then_run (registry_release h (d 6) 2 c) (\<lambda>_ c.
     registry_delete h (d 7) 2 c)))))))"

definition advanced_usage ::
  "host \<Rightarrow> (nat \<Rightarrow> SocketAddr \<Rightarrow> dial) \<Rightarrow> (nat \<Rightarrow> dial) \<Rightarrow> string list \<Rightarrow>
     ((ClientError, unit) outcome \<times> ProtocolClient option) option"
where
  "advanced_usage h dial_to d argv =
     with_client (create_protocol_client h dial_to argv) (\<lambda>c. calling (advanced_body h d c))"

end
