(* ===== verification/Scenarios.thy ===== *)
theory Scenarios
  imports Server_Runs Programs
begin

text \<open>
  The scenarios of the example client against the registry: the calls of a client whose responses
  arrive one line at a time, and the transcripts of the runs the scenarios make.
\<close>

section \<open>A client between two calls\<close>

text \<open>
  \<open>at_point c out lines\<close> is the client \<open>c\<close> when it has written \<open>out\<close> and has yet to receive \<open>lines\<close>, each
  of them as one chunk.
\<close>

definition at_point :: "ProtocolClient \<Rightarrow> byte list \<Rightarrow> byte list list \<Rightarrow> ProtocolClient" where
  "at_point c out lines =
     c\<lparr>registry_stream := (registry_stream c)\<lparr>incoming := map Inr lines, write_plan := [], sent := out\<rparr>,
       curr_data := []\<rparr>"

text \<open>A chunk that ends with its only newline is read to its end, whatever its length.\<close>

lemma read_line_chunk:
  assumes "newline \<notin> set json" and "incoming st = Inr (json @ [newline]) # later"
  shows "read_lines st held = Some (Ok (), st\<lparr>incoming := later\<rparr>, held @ json @ [newline])"
  using assms
proof (induction "length json" arbitrary: json st held rule: less_induct)
  case less
  let ?bs = "json @ [newline]"
  show ?case
  proof (cases "length json < 32")
    case True
    with less.prems show ?thesis by (subst read_lines.simps) (simp add: stream_read_def)
  next
    case False
    let ?st = "st\<lparr>incoming := Inr (drop 32 json @ [newline]) # later\<rparr>"
    have "stream_read 32 st = (Ok (take 32 json), ?st)"
      using less.prems(2) False by (simp add: stream_read_def)
    moreover have "newline \<notin> set (take 32 json)" "newline \<notin> set (drop 32 json)"
      using less.prems(1) by (auto dest: in_set_takeD in_set_dropD)
    moreover from this have "read_lines ?st (held @ take 32 json) =
        Some (Ok (), ?st\<lparr>incoming := later\<rparr>, (held @ take 32 json) @ drop 32 json @ [newline])"
      using False by (intro less.hyps) auto
    ultimately show ?thesis by (subst read_lines.simps) simp
  qed
qed

definition speaks :: "host \<Rightarrow> bool" where
  "speaks h \<longleftrightarrow> json_codec (ser h) (de h) \<and> \<not> debug_on h"

lemma receive_chunk:
  assumes "speaks h" and "to_vec (ser h) m = Ok line" and "incoming st = Inr line # later"
  shows "receive_message h (st, []) = Some (Ok m, st\<lparr>incoming := later\<rparr>, [])"
proof -
  from parse_line_frame [of h m line] assms(1,2)
  obtain json where json: "line = json @ [newline]" "newline \<notin> set json" "parse_line h json = Ok m"
    by (auto simp: speaks_def)
  moreover have "takeWhile (\<lambda>c. c \<noteq> newline) (json @ [newline]) = json"
    "dropWhile (\<lambda>c. c \<noteq> newline) (json @ [newline]) = [newline]"
    using json(2) by (auto simp: takeWhile_append dropWhile_append)
  ultimately show ?thesis
    using read_line_chunk [OF json(2), of st later "[]"] assms(3)
    by (simp add: receive_message_def take_line_def)
qed

lemma point_response:
  assumes "speaks h" and "can_write h r"
  shows "registry_handle_response h (at_point c out (wire h r # lines)) =
     Some (response_result r, at_point c out lines)"
  using receive_chunk [OF assms(1) wire_frame [OF assms(2)],
      of "registry_stream (at_point c out (wire h r # lines))" "map Inr lines"]
  by (cases r)
     (simp_all add: registry_handle_response_def with_lines_def at_point_def registry_response_def)

lemma point_request:
  assumes "can_ask h (client_id c, t, k)" and "line \<noteq> []"
  shows "registry_send_request h d k t (at_point c out (line # lines)) =
     Some (Ok (), at_point c (out @ request_line h (client_id c, t, k)) (line # lines))"
proof -
  have id: "client_id (at_point c out (line # lines)) = client_id c" by (simp add: at_point_def)
  have "registry_send_request h d k t (at_point c out (line # lines)) =
     Some (Ok (), (at_point c out (line # lines))\<lparr>registry_stream :=
       (registry_stream (at_point c out (line # lines)))\<lparr>sent := sent (registry_stream (at_point c out (line # lines))) @
         request_line h (client_id c, t, k)\<rparr>\<rparr>)"
    using assms request_line [OF assms(1)]
    by (intro request_sent) (simp_all add: at_point_def stream_peek_def stream_read_def)
  then show ?thesis by (simp add: at_point_def)
qed

lemma wire_nonempty: "speaks h \<Longrightarrow> can_write h r \<Longrightarrow> wire h r \<noteq> []"
  using to_vec_codec(2) [OF _ wire_frame] by (auto simp: speaks_def)

text \<open>
  The program is started with two addresses, and gets a connection to the registry at the first
  one, which gives it the number \<open>p\<close> and then the given lines.
\<close>

definition starts :: "host \<Rightarrow> (nat \<Rightarrow> SocketAddr \<Rightarrow> dial) \<Rightarrow> string list \<Rightarrow> ProcId \<Rightarrow> byte list list \<Rightarrow> bool" where
  "starts h dial_to argv p lines \<longleftrightarrow>
     (\<exists>name first second primary secondary greeting close.
        argv = [name, first, second] \<and> list_all (\<lambda>a. utf8_valid (map of_char a)) argv \<and>
        parse_socket_addr first = Some primary \<and> parse_socket_addr second = Some secondary \<and>
        to_vec (ser h) (registry_connection p) = Ok greeting \<and>
        dial_to 0 primary =
          \<lparr>connection = Ok \<lparr>incoming = map Inr (greeting # lines), at_end = close, write_plan = [], sent = []\<rparr>,
           read_timeout = Ok (), write_timeout = Ok ()\<rparr>)"

lemma started_client:
  assumes "speaks h" and "starts h dial_to argv p lines"
  shows "\<exists>c. create_protocol_client h dial_to argv = Some (Ok (at_point c [] lines)) \<and> client_id c = p"
proof -
  from assms(2) obtain name first second primary secondary greeting close where
    argv: "argv = [name, first, second]" "list_all (\<lambda>a. utf8_valid (map of_char a)) argv"
      "parse_socket_addr first = Some primary" "parse_socket_addr second = Some secondary"
    and greet: "to_vec (ser h) (registry_connection p) = Ok greeting"
    and dial: "dial_to 0 primary =
      \<lparr>connection = Ok \<lparr>incoming = map Inr (greeting # lines), at_end = close, write_plan = [], sent = []\<rparr>,
       read_timeout = Ok (), write_timeout = Ok ()\<rparr>"
    unfolding starts_def by blast
  let ?st = "\<lparr>incoming = map Inr lines, at_end = close, write_plan = [], sent = []\<rparr>"
  let ?c = "\<lparr>is_primary = True, logging = True, primary_server = primary, secondary_server = secondary,
     client_id = p, registry_stream = ?st, curr_data = []\<rparr>"
  have "create_protocol_client h dial_to argv = Some (Ok ?c)"
    using receive_chunk [OF assms(1) greet, of "?st\<lparr>incoming := map Inr (greeting # lines)\<rparr>" "map Inr lines"]
      argv dial
    by (simp add: create_protocol_client_def collect_args_def expect_parsed_def new_protocol_client_def
        registry_handle_connection_def registry_connection_def)
  moreover have "at_point ?c [] lines = ?c" by (simp add: at_point_def)
  ultimately show ?thesis by (intro exI [of _ ?c]) simp
qed

section \<open>The calls\<close>

text \<open>What the calls make of the responses, with the bytes they write.\<close>

definition success_result :: "KeyId \<Rightarrow> RegistryResponse \<Rightarrow> (ProtocolClientError, unit) outcome" where
  "success_result k r =
     (case r of
        Success k' \<Rightarrow> if k = k' then Ok () else Err UnexpectedResponse
      | Error err \<Rightarrow> Err (RegistryError err)
      | Wait k' \<Rightarrow> Err (WaitError k')
      | _ \<Rightarrow> Err UnexpectedResponse)"

lemma point_expect:
  assumes "speaks h" and "can_write h r"
  shows "registry_expect_success h k (at_point c out (wire h r # lines)) =
     Some (success_result k r, at_point c out lines)"
  using point_response [OF assms, of c out lines]
  by (cases r) (simp_all add: registry_expect_success_def success_result_def)

lemma point_calls:
  assumes "speaks h" and "can_write h r"
  shows "can_ask h (client_id c, Create, k) \<Longrightarrow>
      registry_create h d k (at_point c out (wire h r # lines)) =
        Some (success_result k r, at_point c (out @ request_line h (client_id c, Create, k)) lines)"
    and "can_ask h (client_id c, Delete, k) \<Longrightarrow>
      registry_delete h d k (at_point c out (wire h r # lines)) =
        Some (success_result k r, at_point c (out @ request_line h (client_id c, Delete, k)) lines)"
    and "can_ask h (client_id c, Release, k) \<Longrightarrow>
      registry_release h d k (at_point c out (wire h r # lines)) =
        Some (success_result k r, at_point c (out @ request_line h (client_id c, Release, k)) lines)"
    and "can_ask h (client_id c, Read, k) \<Longrightarrow>
      registry_read h d k (at_point c out (wire h r # lines)) =
        Some (Ok (), at_point c (out @ request_line h (client_id c, Read, k)) (wire h r # lines))"
  using point_request [OF _ wire_nonempty [OF assms]] point_expect [OF assms]
  by (simp_all add: registry_create_def registry_delete_def registry_release_def registry_read_def)

lemma point_awaits:
  assumes "speaks h"
  shows "can_write h (Holder k a) \<Longrightarrow>
      registry_await_read h (at_point c out (wire h (Holder k a) # lines)) =
        Some (Ok (k, a), at_point c out lines)"
    and "can_write h (Wait k) \<Longrightarrow>
      registry_await_read h (at_point c out (wire h (Wait k) # lines)) =
        Some (Err (WaitError k), at_point c out lines)"
    and "can_write h (Success k) \<Longrightarrow>
      registry_await_write h (at_point c out (wire h (Success k) # lines)) =
        Some (Ok k, at_point c out lines)"
  using point_response [OF assms]
  by (simp_all add: registry_await_read_def registry_await_write_def)

lemma point_syncs:
  assumes "speaks h"
  shows "can_ask h (client_id c, Write, k) \<Longrightarrow> can_write h (Success k) \<Longrightarrow>
      registry_write_sync h d k (at_point c out (wire h (Success k) # lines)) =
        Some (Ok (), at_point c (out @ request_line h (client_id c, Write, k)) lines)"
    and "can_ask h (client_id c, Read, k) \<Longrightarrow> can_write h (Holder k a) \<Longrightarrow>
      registry_read_sync h d k (at_point c out (wire h (Holder k a) # lines)) =
        Some (Ok a, at_point c (out @ request_line h (client_id c, Read, k)) lines)"
    and "can_ask h (client_id c, Read, k) \<Longrightarrow> can_write h (Wait k) \<Longrightarrow> can_write h (Holder k a) \<Longrightarrow>
      registry_read_sync h d k (at_point c out (wire h (Wait k) # wire h (Holder k a) # lines)) =
        Some (Ok a, at_point c (out @ request_line h (client_id c, Read, k)) lines)"
  using point_request [OF _ wire_nonempty [OF assms]] point_awaits [OF assms]
  by (simp_all add: registry_write_sync_def registry_read_sync_def registry_read_def registry_write_def)

section \<open>The calls at the registry\<close>

text \<open>A server whose announcements are consumed, with the given locks.\<close>

definition locked :: "RegistryServer \<Rightarrow> (KeyId \<rightharpoonup> KeyState) \<Rightarrow> RegistryServer" where
  "locked s K = s\<lparr>access_manager := \<lparr>access_granted = channel_new, key_states = K\<rparr>\<rparr>"

definition locks_inv :: "(KeyId \<rightharpoonup> KeyState) \<Rightarrow> bool" where
  "locks_inv K \<longleftrightarrow> (\<forall>k ks. K k = Some ks \<longrightarrow> ks_inv ks)"

lemma locks_inv_upd [simp]:
  "locks_inv K \<Longrightarrow> ks_inv ks \<Longrightarrow> locks_inv (K(k \<mapsto> ks))"
  "locks_inv K \<Longrightarrow> locks_inv (K(k := None))"
  by (auto simp: locks_inv_def)

lemma ready_locked:
  assumes "ready ps s"
  shows "s = locked s (key_states (access_manager s))" and "locks_inv (key_states (access_manager s))"
proof -
  let ?am = "access_manager s"
  have inv: "am_inv ?am" using assms by (auto simp: ready_def rs_inv_def intro: am_reachable_inv)
  then have "access_granted ?am = channel_new"
    using assms am_invD(1) [OF inv] by (cases "access_granted ?am") (simp add: ready_def channel_new_def)
  then have "?am = \<lparr>access_granted = channel_new, key_states = key_states ?am\<rparr>" by (cases ?am) simp
  then show "s = locked s (key_states ?am)" by (cases s) (simp add: locked_def)
  show "locks_inv (key_states ?am)" using am_invD(2) [OF inv] by (auto simp: locks_inv_def)
qed

lemma locked_simps [simp]:
  "token_addr_map (locked s K) = token_addr_map s"
  "access_manager (locked s K) = \<lparr>access_granted = channel_new, key_states = K\<rparr>"
  "told_to (locked s K) gs = told_to s gs"
  "(locked s K)\<lparr>access_manager := \<lparr>access_granted = channel_new, key_states = K'\<rparr>\<rparr> = locked s K'"
  by (simp_all add: locked_def told_to_def)

lemma channel_new_simps [simp]:
  "buffer channel_new = []" "rx_alive channel_new"
  "channel_new\<lparr>buffer := []\<rparr> = channel_new"
  by (simp_all add: channel_new_def)

lemmas call_eval = registry_request_def handle_message_def success_response_eq write_response_def
  read_response_def on_manager_eq create_eq delete_eq write_access_eq read_access_eq put_key_state_def
  collect_requests_def collect_granted_def try_iter_def answer_to_def

lemma call_create:
  "call_step h (p, Create, k) (locked s K) =
     (if K k = None then ([(p, Success k)], locked s (K(k \<mapsto> new_key_state p)))
      else ([(p, Error (display_rs_error (AccessManager (KeyExists k))))], locked s K))"
  by (simp add: call_eval told_to_def split: option.split)

lemma call_delete:
  "K k = Some ks \<Longrightarrow> idle ks \<Longrightarrow>
     call_step h (p, Delete, k) (locked s K) = ([(p, Success k)], locked s (K(k := None)))"
  by (simp add: call_eval told_to_def)

lemma call_write:
  "K k = Some ks \<Longrightarrow> idle ks \<Longrightarrow>
     call_step h (p, Write, k) (locked s K) = ([(p, Success k)], locked s (K(k \<mapsto> register_writer p ks)))"
  by (simp add: call_eval told_to_def)

lemma call_read_first:
  assumes "K k = Some ks" and "idle ks" and "pending_request ks = []" and "hash_iter (pick h)"
    and "token_addr_map s (Token p) = Some a"
  shows "call_step h (p, Read, k) (locked s K) =
     ([(p, Holder k a)], locked s (K(k \<mapsto> register_reader p ks)))"
proof -
  have "readers ks = {}" "writer ks = None" using assms(2) by (simp_all add: idle_def)
  moreover have "pick h {p} \<in> {p}"
    by (rule assms(4) [unfolded hash_iter_def, rule_format]) simp
  ultimately have "holder (pick h) (register_reader p ks) = p" by (simp add: holder_def register_reader_def)
  with assms \<open>writer ks = None\<close> show ?thesis
    by (simp add: call_eval told_to_def and_then_def proc_id_to_addr_def)
qed

lemma call_read_wait:
  "K k = Some ks \<Longrightarrow> writer ks \<noteq> None \<Longrightarrow>
     call_step h (p, Read, k) (locked s K) = ([(p, Wait k)], locked s (K(k \<mapsto> push_back (p, Read) ks)))"
  by (simp add: call_eval told_to_def)

lemma call_release:
  assumes "locks_inv K" and "K k = Some ks" and "drop_holder p ks = Some ks'" and "idle ks'"
  shows "call_step h (p, Release, k) (locked s K) =
     ((p, Success k) # told_to s (map (announce k (creator ks)) (fst (admit ks'))),
      locked s (K(k \<mapsto> snd (admit ks'))))"
    and "holders_known h (p, Release, k) (locked s K) =
      list_all (holder_known (token_addr_map s)) (map (announce k (creator ks)) (fst (admit ks')))"
proof -
  have "am_inv \<lparr>access_granted = channel_new, key_states = K\<rparr>"
    using assms(1) by (auto simp: am_inv_def locks_inv_def)
  from release_eq [OF this, of "pick h" p k] assms
  show "call_step h (p, Release, k) (locked s K) =
     ((p, Success k) # told_to s (map (announce k (creator ks)) (fst (admit ks'))),
      locked s (K(k \<mapsto> snd (admit ks'))))"
    "holders_known h (p, Release, k) (locked s K) =
      list_all (holder_known (token_addr_map s)) (map (announce k (creator ks)) (fst (admit ks')))"
    by (simp_all add: call_eval holders_known_def)
qed

lemma call_announces_nothing: "t \<noteq> Release \<Longrightarrow> holders_known h (p, t, k) (locked s K)"
  by (cases t)
     (auto simp: holders_known_def call_eval and_then_def proc_id_to_addr_def split: option.split if_split)

lemmas call_steps = call_create call_delete call_write call_read_first call_read_wait call_release
  call_announces_nothing

lemmas lock_eval = idle_def ks_inv_def drop_holder_def admit_def ks_defs lock_request_def is_read_def
  announce_def told_to_def grant_response_def holder_known_def

end
