(* ===== verification/Program_Claims.thy ===== *)
theory Program_Claims
  imports Scenarios Registry_Safety
begin

text \<open>
  The properties of the two programs: what they make of their arguments, and that the scenarios of
  the example client end well against a registry that serves them.
\<close>

section \<open>The first scenario\<close>

definition basic_calls :: "ProcId \<Rightarrow> call list" where
  "basic_calls p =
     [(p, Create, 1), (p, Create, 1), (p, Write, 1), (p, Release, 1), (p, Read, 1), (p, Release, 1),
      (p, Delete, 1), (p, Create, 2), (p, Write, 2), (p, Release, 2)]"

definition key_exists :: "KeyId \<Rightarrow> RegistryResponse" where
  "key_exists k = Error (display_rs_error (AccessManager (KeyExists k)))"

definition basic_said :: "SocketAddr \<Rightarrow> RegistryResponse list" where
  "basic_said a =
     [Success 1, key_exists 1, Success 1, Success 1, Holder 1 a, Success 1, Success 1, Success 2,
      Success 2, Success 2]"

lemma basic_transcript:
  assumes "locks_inv K" and "K 1 = None" and "K 2 = None" and "hash_iter (pick h)"
    and "token_addr_map s (Token p) = Some a"
  shows "fst (transcript h (basic_calls p) (locked s K)) = map (Pair p) (basic_said a)"
    and "goes_well h (basic_calls p) (locked s K) \<longleftrightarrow> list_all (can_write h) (basic_said a)"
  using assms
  by (simp_all add: basic_calls_def basic_said_def key_exists_def call_steps lock_eval
      del: call_step.simps display_rs_error.simps)

lemma basic_client:
  assumes "speaks h" and "list_all (can_ask h) (basic_calls (client_id c))"
    and "list_all (can_write h) (basic_said a)"
  shows "basic_body h d (at_point c [] (map (wire h) (basic_said a))) =
     Some (Ok (), at_point c (concat (map (request_line h) (basic_calls (client_id c)))) [])"
  using assms
  by (simp add: basic_body_def basic_calls_def basic_said_def key_exists_def point_calls point_syncs
      success_result_def ignoring_def del: display_rs_error.simps)

lemma lines_for_one: "lines_for h p (map (Pair p) rs) = map (wire h) rs"
  by (induction rs) (simp_all add: lines_for_def)

text \<open>
  C13: The scenario \<open>basic_usage\<close> of the example client ends well, from the command line to the registry.
  The requests of a client with number \<open>p\<close> arrive, one after the other, at a registry without a
  backup that knows neither key 1 nor key 2. Then the bytes the registry writes to this client are
  lines with which the whole scenario, started with two addresses that parse, returns \<open>Ok\<close>; and the
  bytes the client writes are those ten requests.
\<close>

theorem basic_usage_end_to_end:
  assumes "speaks h" and "ready {p} s" and "hash_iter (pick h)" and "token_addr_map s (Token p) = Some a"
    and "key_states (access_manager s) 1 = None" and "key_states (access_manager s) 2 = None"
    and "unat (request_counter s) + 10 < 2 ^ 64"
    and "list_all (can_ask h) (basic_calls p)" and "list_all (can_write h) (basic_said a)"
  shows "\<exists>lines. sent_to (serve_run h (basic_calls p) s) (Token p) = sent_to s (Token p) @ concat lines \<and>
     (\<forall>dial_to d argv. starts h dial_to argv p lines \<longrightarrow>
        (\<exists>c. basic_usage h dial_to d argv = Some (Ok (), Some c) \<and>
           sent (registry_stream c) = concat (map (request_line h) (basic_calls p))))"
proof -
  let ?lines = "map (wire h) (basic_said a)"
  note s = ready_locked [OF assms(2)]
  note run = basic_transcript [OF s(2) assms(5,6,3,4), folded s(1)]
  have "list_all (\<lambda>x. fst x \<in> {p} \<and> can_ask h x) (basic_calls p)"
    using assms(8) by (simp add: basic_calls_def)
  from serve_transcript [OF assms(2) _ this] assms(1,7,9) run
  have "sent_to (serve_run h (basic_calls p) s) (Token p) = sent_to s (Token p) @ concat ?lines"
    by (simp add: speaks_def basic_calls_def [of p, THEN arg_cong [where f = length]] lines_for_one)
  moreover have "\<exists>c. basic_usage h dial_to d argv = Some (Ok (), Some c) \<and>
      sent (registry_stream c) = concat (map (request_line h) (basic_calls p))"
    if "starts h dial_to argv p ?lines" for dial_to d argv
  proof -
    from started_client [OF assms(1) that] obtain c where
      "create_protocol_client h dial_to argv = Some (Ok (at_point c [] ?lines))" "client_id c = p"
      by blast
    with basic_client [OF assms(1) _ assms(9), of c d] assms(8) show ?thesis
      by (simp add: basic_usage_def with_client_def calling_def at_point_def)
  qed
  ultimately show ?thesis by blast
qed

section \<open>The second scenario\<close>

definition advanced_calls :: "ProcId \<Rightarrow> call list" where
  "advanced_calls p =
     [(p, Create, 2), (p, Write, 2), (p, Read, 2), (p, Release, 2), (p, Release, 2), (p, Read, 2),
      (p, Release, 2), (p, Delete, 2)]"

definition advanced_said :: "SocketAddr \<Rightarrow> RegistryResponse list" where
  "advanced_said a =
     [Success 2, Success 2, Wait 2, Success 2, Holder 2 a, Success 2, Holder 2 a, Success 2, Success 2]"

lemma advanced_transcript:
  assumes "locks_inv K" and "K 2 = None" and "hash_iter (pick h)" and "token_addr_map s (Token p) = Some a"
  shows "fst (transcript h (advanced_calls p) (locked s K)) = map (Pair p) (advanced_said a)"
    and "goes_well h (advanced_calls p) (locked s K) \<longleftrightarrow> list_all (can_write h) (advanced_said a)"
  using assms
  by (simp_all add: advanced_calls_def advanced_said_def call_steps lock_eval del: call_step.simps)

lemma advanced_client:
  assumes "speaks h" and "list_all (can_ask h) (advanced_calls (client_id c))"
    and "list_all (can_write h) (advanced_said a)"
  shows "advanced_body h d (at_point c [] (map (wire h) (advanced_said a))) =
     Some (Ok (), at_point c (concat (map (request_line h) (advanced_calls (client_id c)))) [])"
  using assms
  by (simp add: advanced_body_def advanced_calls_def advanced_said_def point_calls point_syncs
      point_awaits success_result_def ignoring_def handle_wait_error_def)

text \<open>
  C14: The scenario \<open>advanced_usage\<close> ends well. The client asks for a read while it writes itself, is told
  to wait, releases the write inside \<open>handle_wait_error!\<close>, and is then granted the read by the registry;
  the scenario returns \<open>Ok\<close>, and the bytes the client writes are the eight requests served.
\<close>

theorem advanced_usage_end_to_end:
  assumes "speaks h" and "ready {p} s" and "hash_iter (pick h)" and "token_addr_map s (Token p) = Some a"
    and "key_states (access_manager s) 2 = None" and "unat (request_counter s) + 8 < 2 ^ 64"
    and "list_all (can_ask h) (advanced_calls p)" and "list_all (can_write h) (advanced_said a)"
  shows "\<exists>lines. sent_to (serve_run h (advanced_calls p) s) (Token p) = sent_to s (Token p) @ concat lines \<and>
     (\<forall>dial_to d argv. starts h dial_to argv p lines \<longrightarrow>
        (\<exists>c. advanced_usage h dial_to d argv = Some (Ok (), Some c) \<and>
           sent (registry_stream c) = concat (map (request_line h) (advanced_calls p))))"
proof -
  let ?lines = "map (wire h) (advanced_said a)"
  note s = ready_locked [OF assms(2)]
  note run = advanced_transcript [OF s(2) assms(5,3,4), folded s(1)]
  have "list_all (\<lambda>x. fst x \<in> {p} \<and> can_ask h x) (advanced_calls p)"
    using assms(7) by (simp add: advanced_calls_def)
  from serve_transcript [OF assms(2) _ this] assms(1,6,8) run
  have "sent_to (serve_run h (advanced_calls p) s) (Token p) = sent_to s (Token p) @ concat ?lines"
    by (simp add: speaks_def advanced_calls_def [of p, THEN arg_cong [where f = length]] lines_for_one)
  moreover have "\<exists>c. advanced_usage h dial_to d argv = Some (Ok (), Some c) \<and>
      sent (registry_stream c) = concat (map (request_line h) (advanced_calls p))"
    if "starts h dial_to argv p ?lines" for dial_to d argv
  proof -
    from started_client [OF assms(1) that] obtain c where
      "create_protocol_client h dial_to argv = Some (Ok (at_point c [] ?lines))" "client_id c = p"
      by blast
    with advanced_client [OF assms(1) _ assms(8), of c d] assms(7) show ?thesis
      by (simp add: advanced_usage_def with_client_def calling_def at_point_def)
  qed
  ultimately show ?thesis by blast
qed

section \<open>Two clients and their data\<close>

text \<open>
  The order the pauses of the two clients make: client 1 creates the key, tries it again and gets
  the write access; client 2 tries to create it and asks to read; client 1 releases; client 2 is
  granted the read, releases and deletes.
\<close>

definition p2p_calls :: "ProcId \<Rightarrow> ProcId \<Rightarrow> call list" where
  "p2p_calls p q =
     [(p, Create, 1), (p, Create, 1), (p, Write, 1), (q, Create, 1), (q, Read, 1), (p, Release, 1),
      (q, Release, 1), (q, Delete, 1)]"

definition p2p_said :: "ProcId \<Rightarrow> ProcId \<Rightarrow> SocketAddr \<Rightarrow> (ProcId \<times> RegistryResponse) list" where
  "p2p_said p q a =
     [(p, Success 1), (p, key_exists 1), (p, Success 1), (q, key_exists 1), (q, Wait 1), (p, Success 1),
      (q, Holder 1 a), (q, Success 1), (q, Success 1)]"

lemma p2p_transcript:
  assumes "locks_inv K" and "K 1 = None" and "p \<noteq> q" and "token_addr_map s (Token p) = Some a"
  shows "fst (transcript h (p2p_calls p q) (locked s K)) = p2p_said p q a"
    and "goes_well h (p2p_calls p q) (locked s K) \<longleftrightarrow> list_all (\<lambda>x. can_write h (snd x)) (p2p_said p q a)"
  using assms
  by (simp_all add: p2p_calls_def p2p_said_def key_exists_def call_steps lock_eval
      del: call_step.simps display_rs_error.simps)

text \<open>The store client 1 ends with, and the text both clients have then.\<close>

definition new_text :: string where
  "new_text = ''new data from client 1''"

definition client1_store :: DataStore where
  "client1_store = snd (store_write 1 new_text (snd (store_create 1 ''inital data fom client 1'' new_data_store)))"

lemma client1_store_contents: "ds_inv client1_store" "ds_contents client1_store = [1 \<mapsto> new_text]"
proof -
  let ?s = "snd (store_create 1 ''inital data fom client 1'' new_data_store)"
  have "ds_inv ?s" "ds_contents ?s = [1 \<mapsto> ''inital data fom client 1'']"
    using ds.create_law [OF ds_inv_new, of 1 "''inital data fom client 1''"]
    by (simp_all add: ds_contents_new)
  with ds.write_law [of ?s 1 new_text]
  show "ds_inv client1_store" "ds_contents client1_store = [1 \<mapsto> new_text]"
    by (simp_all add: client1_store_def)
qed

lemma store_new: "\<exists>store. store_create 1 v new_data_store = (Ok (), store) \<and> ds_inv store \<and>
    ds_contents store = [1 \<mapsto> v]"
  using ds.create_law [OF ds_inv_new, of 1 v]
  by (cases "store_create 1 v new_data_store") (simp add: ds_contents_new)

lemma log_no_effect: "ds_inv (snd s) \<Longrightarrow> log_text info_on k s = Some (Ok (), s)"
  using ds.get_law [of "snd s" k] by (cases s) (auto simp: log_text_def split: option.split)

definition client1_said :: "RegistryResponse list" where
  "client1_said = [Success 1, key_exists 1, Success 1, Success 1]"

definition client2_said :: "SocketAddr \<Rightarrow> RegistryResponse list" where
  "client2_said a = [key_exists 1, Wait 1, Holder 1 a, Success 1, Success 1]"

lemma p2p_lines:
  assumes "p \<noteq> q"
  shows "lines_for h p (p2p_said p q a) = map (wire h) client1_said"
    and "lines_for h q (p2p_said p q a) = map (wire h) (client2_said a)"
  using assms by (simp_all add: lines_for_def p2p_said_def client1_said_def client2_said_def)

definition calls_of :: "ProcId \<Rightarrow> call list \<Rightarrow> call list" where
  "calls_of p xs = filter (\<lambda>x. fst x = p) xs"

lemma client1_run:
  assumes "speaks h" and "list_all (can_ask h) (p2p_calls (client_id c) q)" and "client_id c \<noteq> q"
    and "list_all (can_write h) client1_said"
  shows "client1_body h info_on d 1 (at_point c [] (map (wire h) client1_said), new_data_store) =
     Some (Ok (), at_point c (concat (map (request_line h) (calls_of (client_id c) (p2p_calls (client_id c) q)))) [],
       client1_store)"
proof -
  obtain store where store: "store_create 1 ''inital data fom client 1'' new_data_store = (Ok (), store)"
    "ds_inv store" "ds_contents store = [1 \<mapsto> ''inital data fom client 1'']"
    using store_new by blast
  have wr: "store_write 1 new_text store = (Ok (), client1_store)"
    using ds.write_law [OF store(2), of 1 new_text] store
    by (cases "store_write 1 new_text store") (simp add: client1_store_def)
  from assms show ?thesis
    using store(1,2) wr client1_store_contents(1)
    by (simp add: client1_body_def client_call_def calling_def store_call_def log_no_effect p2p_calls_def
        client1_said_def key_exists_def calls_of_def point_calls point_syncs success_result_def
        ignoring_def new_text_def [symmetric] del: display_rs_error.simps)
qed

lemma client2_run:
  assumes "speaks h" and "list_all (can_ask h) (p2p_calls p (client_id c))" and "p \<noteq> client_id c"
    and "list_all (can_write h) (client2_said a)" and "fst (p2p_read h conn 1) = Ok v"
  shows "\<exists>store. client2_body h info_on d conn 1 (at_point c [] (map (wire h) (client2_said a)), new_data_store) =
     Some (Ok (), at_point c (concat (map (request_line h) (calls_of (client_id c) (p2p_calls p (client_id c))))) [],
       store) \<and> ds_contents store = [1 \<mapsto> v]"
proof -
  obtain store where store: "store_create 1 v new_data_store = (Ok (), store)" "ds_inv store"
    "ds_contents store = [1 \<mapsto> v]"
    using store_new by blast
  from assms show ?thesis
    using store
    by (intro exI [of _ store])
       (simp add: client2_body_def client_call_def calling_def store_call_def log_no_effect p2p_calls_def
        client2_said_def key_exists_def calls_of_def point_calls point_syncs success_result_def
        ignoring_def del: display_rs_error.simps)
qed

lemma quiet_point: "(at_point c out lines)\<lparr>logging := l\<rparr> = at_point (c\<lparr>logging := l\<rparr>) out lines"
  by (simp add: at_point_def)

lemma at_point_sent: "sent (registry_stream (at_point c out lines)) = out"
  by (simp add: at_point_def)

lemma p2p_clients:
  assumes "speaks h" and "p \<noteq> q" and "list_all (can_ask h) (p2p_calls p q)"
    and "list_all (\<lambda>x. can_write h (snd x)) (p2p_said p q a)"
    and "fst (p2p_read h conn 1) = Ok new_text" and "connect (SocketAddrV4 0 6001) = conn"
    and start: "starts h dial1 argv1 p (map (wire h) client1_said)"
      "starts h dial2 argv2 q (map (wire h) (client2_said a))"
  shows "\<exists>c1. p2p_client1 h info_on dial1 d1 argv1 = Some (Ok (), Some (c1, client1_store)) \<and>
      sent (registry_stream c1) = concat (map (request_line h) (calls_of p (p2p_calls p q)))"
    and "\<exists>c2 store2. p2p_client2 h info_on dial2 d2 connect argv2 = Some (Ok (), Some (c2, store2)) \<and>
      sent (registry_stream c2) = concat (map (request_line h) (calls_of q (p2p_calls p q))) \<and>
      ds_contents store2 = [1 \<mapsto> new_text]"
proof -
  have said: "list_all (can_write h) client1_said" "list_all (can_write h) (client2_said a)"
    using assms(4) by (simp_all add: p2p_said_def client1_said_def client2_said_def)
  from started_client [OF assms(1) start(1)] obtain c1 where c1: "client_id c1 = p"
    "create_protocol_client h dial1 argv1 = Some (Ok (at_point c1 [] (map (wire h) client1_said)))"
    by blast
  then show "\<exists>c1. p2p_client1 h info_on dial1 d1 argv1 = Some (Ok (), Some (c1, client1_store)) \<and>
      sent (registry_stream c1) = concat (map (request_line h) (calls_of p (p2p_calls p q)))"
    using client1_run [of h "c1\<lparr>logging := False\<rparr>" q info_on d1] assms(1-3) said(1)
    by (simp add: p2p_client1_def with_client_def quiet_point at_point_sent)
  from started_client [OF assms(1) start(2)] obtain c2 where c2: "client_id c2 = q"
    "create_protocol_client h dial2 argv2 = Some (Ok (at_point c2 [] (map (wire h) (client2_said a))))"
    by blast
  then show "\<exists>c2 store2. p2p_client2 h info_on dial2 d2 connect argv2 = Some (Ok (), Some (c2, store2)) \<and>
      sent (registry_stream c2) = concat (map (request_line h) (calls_of q (p2p_calls p q))) \<and>
      ds_contents store2 = [1 \<mapsto> new_text]"
    using client2_run [of h p "c2\<lparr>logging := False\<rparr>" a conn new_text info_on d2] assms(1-3,5,6) said(2)
    by (auto simp: p2p_client2_def with_client_def quiet_point at_point_sent)
qed

text \<open>
  What client 1 and the thread of its peer-to-peer server do to the store they share: client 1
  creates the text and writes the new one, and then a peer with the stream \<open>st\<close> connects and asks.
\<close>

definition client1_events :: "TcpStream \<Rightarrow> SocketAddr \<Rightarrow> thread_event list" where
  "client1_events st a =
     [Owner (CreateOp 1 ''inital data fom client 1''), Owner (WriteOp 1 new_text),
      Peer (PeerEvent (Token 0) True [Inr (st, a)]), Peer (PeerEvent (Token 1) True [])]"

lemma client1_thread:
  assumes "json_codec (ser h) (de h)" and "\<not> debug_on h"
    and "register_plan pl = []" and "incoming st = Inr ask # later" and "write_plan st = []"
    and "to_vec (ser h) (Data (DataRequest 1)) = Ok ask" and "length ask \<le> 256"
    and "to_vec (ser h) (Data (DataResponse new_text)) = Ok bytes" and "length bytes \<le> 256"
    and "write_plan conn = []" and "incoming conn = Inr bytes # others"
  shows "(\<exists>ps. p2p_thread h (Ok pl) (Ok ()) [Inr (client1_events st b)] 6001 new_data_store = Ok ps \<and>
       data_store ps = client1_store \<and>
       peer_stream_map ps = [Token 1 \<mapsto> st\<lparr>incoming := later, sent := sent st @ bytes\<rparr>]) \<and>
     p2p_read h (Ok conn) 1 = (Ok new_text, Some (conn\<lparr>incoming := others, sent := sent conn @ ask\<rparr>))"
proof -
  let ?pl = "pl\<lparr>registered := Token 1 # Token 0 # registered pl\<rparr>"
  let ?s = "\<lparr>peer_addr = SocketAddrV4 0 6001, data_store = client1_store, peer_stream_map = [Token 1 \<mapsto> st],
    peer_poll = ?pl, token_counter = 1\<rparr>"
  have inv: "ds_inv (data_store ?s)" "ds_contents (data_store ?s) 1 = Some new_text"
    using client1_store_contents by simp_all
  note ex = peer_exchange [OF inv(1) assms(1,2) _ assms(4-7) inv(2) assms(8-11), of "Token 1"]
  have "p2p_thread h (Ok pl) (Ok ()) [Inr (client1_events st b)] 6001 new_data_store =
      Ok (?s\<lparr>peer_stream_map := [Token 1 \<mapsto> st\<lparr>incoming := later, sent := sent st @ bytes\<rparr>]\<rparr>)"
    using ex assms(3)
    by (simp add: p2p_thread_def new_p2p_server_def shared_bind_def and_then_def p2p_register_def
        poll_register_def client1_events_def p2p_handle_connection_def checked_succ_def client1_store_def)
  with ex show ?thesis by simp
qed

text \<open>
  C5: The text of one client reaches the other. Two clients run their scenarios against one registry,
  which serves their requests in the order the pauses of the scenarios make; the bytes each client
  writes to its connection are exactly its requests in this run, and none of them fails at the
  registry. Then each client gets the lines with which its scenario returns \<open>Ok\<close>: client 1 ends with its
  new text in its data store, which is the store its peer-to-peer thread then has; client 2
  waits for the release of client 1, is granted the read, asks this thread for the text, the bytes it
  writes being those that arrive there, and ends with the same text in its own store; the program returns \<open>Ok\<close>.
\<close>

theorem p2p_end_to_end:
  assumes "speaks h" and "ready {p, q} s" and "p \<noteq> q" and "token_addr_map s (Token p) = Some a"
    and "key_states (access_manager s) 1 = None" and "unat (request_counter s) + 8 < 2 ^ 64"
    and "list_all (can_ask h) (p2p_calls p q)" and "list_all (\<lambda>x. can_write h (snd x)) (p2p_said p q a)"
    and "register_plan pl = []" and "incoming st = Inr ask # later" and "write_plan st = []"
    and "to_vec (ser h) (Data (DataRequest 1)) = Ok ask" and "length ask \<le> 256"
    and "to_vec (ser h) (Data (DataResponse new_text)) = Ok bytes" and "length bytes \<le> 256"
    and "write_plan conn = []" and "incoming conn = Inr bytes # others"
    and "connect (SocketAddrV4 0 6001) = Ok conn"
  shows "\<exists>lines1 lines2.
     list_all (\<lambda>r. r = Ok ()) (serve_outcomes h (p2p_calls p q) s) \<and>
     sent_to (serve_run h (p2p_calls p q) s) (Token p) = sent_to s (Token p) @ concat lines1 \<and>
     sent_to (serve_run h (p2p_calls p q) s) (Token q) = sent_to s (Token q) @ concat lines2 \<and>
     (\<exists>ps. p2p_thread h (Ok pl) (Ok ()) [Inr (client1_events st b)] 6001 new_data_store = Ok ps \<and>
        data_store ps = client1_store \<and>
        peer_stream_map ps = [Token 1 \<mapsto> st\<lparr>incoming := later, sent := sent st @ bytes\<rparr>]) \<and>
     p2p_read h (connect (SocketAddrV4 0 6001)) 1 =
       (Ok new_text, Some (conn\<lparr>incoming := others, sent := sent conn @ ask\<rparr>)) \<and>
     (\<forall>dial1 argv1 dial2 argv2 d1 d2 info_on. starts h dial1 argv1 p lines1 \<longrightarrow> starts h dial2 argv2 q lines2 \<longrightarrow>
        (\<exists>c1 c2 store2.
           p2p_client1 h info_on dial1 d1 argv1 = Some (Ok (), Some (c1, client1_store)) \<and>
           sent (registry_stream c1) = concat (map (request_line h) (calls_of p (p2p_calls p q))) \<and>
           ds_contents client1_store = [1 \<mapsto> new_text] \<and>
           p2p_client2 h info_on dial2 d2 connect argv2 = Some (Ok (), Some (c2, store2)) \<and>
           sent (registry_stream c2) = concat (map (request_line h) (calls_of q (p2p_calls p q))) \<and>
           ds_contents store2 = [1 \<mapsto> new_text] \<and>
           client_main (map_option fst (p2p_client1 h info_on dial1 d1 argv1))
             (map_option fst (p2p_client2 h info_on dial2 d2 connect argv2)) = Some (Ok ())))"
proof -
  let ?lines1 = "map (wire h) client1_said" and ?lines2 = "map (wire h) (client2_said a)"
  note s = ready_locked [OF assms(2)]
  note run = p2p_transcript [OF s(2) assms(5,3,4), of h, folded s(1)]
  have "list_all (\<lambda>x. fst x \<in> {p, q} \<and> can_ask h x) (p2p_calls p q)"
    using assms(7) by (simp add: p2p_calls_def)
  from serve_transcript [OF assms(2) _ this] assms(1,6,8) run
  have "list_all (\<lambda>r. r = Ok ()) (serve_outcomes h (p2p_calls p q) s)"
    "sent_to (serve_run h (p2p_calls p q) s) (Token p) = sent_to s (Token p) @ concat ?lines1"
    "sent_to (serve_run h (p2p_calls p q) s) (Token q) = sent_to s (Token q) @ concat ?lines2"
    by (simp_all add: speaks_def p2p_calls_def [of p q, THEN arg_cong [where f = length]]
        p2p_lines [OF assms(3)])
  moreover have peer: "(\<exists>ps. p2p_thread h (Ok pl) (Ok ()) [Inr (client1_events st b)] 6001 new_data_store = Ok ps \<and>
       data_store ps = client1_store \<and>
       peer_stream_map ps = [Token 1 \<mapsto> st\<lparr>incoming := later, sent := sent st @ bytes\<rparr>]) \<and>
     p2p_read h (connect (SocketAddrV4 0 6001)) 1 =
       (Ok new_text, Some (conn\<lparr>incoming := others, sent := sent conn @ ask\<rparr>))"
    using client1_thread [OF _ _ assms(9-17), of b] assms(1,18) by (simp add: speaks_def)
  moreover from peer have read: "fst (p2p_read h (connect (SocketAddrV4 0 6001)) 1) = Ok new_text" by simp
  have "\<exists>c1 c2 store2.
       p2p_client1 h info_on dial1 d1 argv1 = Some (Ok (), Some (c1, client1_store)) \<and>
       sent (registry_stream c1) = concat (map (request_line h) (calls_of p (p2p_calls p q))) \<and>
       ds_contents client1_store = [1 \<mapsto> new_text] \<and>
       p2p_client2 h info_on dial2 d2 connect argv2 = Some (Ok (), Some (c2, store2)) \<and>
       sent (registry_stream c2) = concat (map (request_line h) (calls_of q (p2p_calls p q))) \<and>
       ds_contents store2 = [1 \<mapsto> new_text] \<and>
       client_main (map_option fst (p2p_client1 h info_on dial1 d1 argv1))
         (map_option fst (p2p_client2 h info_on dial2 d2 connect argv2)) = Some (Ok ())"
    if st1: "starts h dial1 argv1 p ?lines1" and st2: "starts h dial2 argv2 q ?lines2"
    for dial1 argv1 dial2 argv2 d1 d2 info_on
  proof -
    from p2p_clients(1) [where connect = connect, OF assms(1,3,7,8) read refl st1 st2, of info_on d1] obtain c1 where
      "p2p_client1 h info_on dial1 d1 argv1 = Some (Ok (), Some (c1, client1_store))"
      "sent (registry_stream c1) = concat (map (request_line h) (calls_of p (p2p_calls p q)))"
      by blast
    moreover from p2p_clients(2) [where connect = connect, OF assms(1,3,7,8) read refl st1 st2, of info_on d2] obtain c2 store2 where
      "p2p_client2 h info_on dial2 d2 connect argv2 = Some (Ok (), Some (c2, store2))"
      "sent (registry_stream c2) = concat (map (request_line h) (calls_of q (p2p_calls p q)))"
      "ds_contents store2 = [1 \<mapsto> new_text]"
      by blast
    ultimately show ?thesis
      using client1_store_contents(2) by (simp add: client_main_def p2p_def join_logged_def)
  qed
  ultimately show ?thesis by blast
qed

section \<open>A host, a server and arguments\<close>

text \<open>One byte for every message of the scenarios of two clients, number 1 and number 2.\<close>

definition scenario_table :: "(byte list \<times> Message) list" where
  "scenario_table =
     [([20], registry_connection 1), ([21], registry_connection 2),
      ([22], registry_connection_established 1), ([23], registry_connection_established 2),
      ([24], registry_request 1 1 Create), ([25], registry_request 1 1 Write),
      ([26], registry_request 1 1 Release), ([27], registry_request 1 1 Read),
      ([28], registry_request 1 1 Delete), ([29], registry_request 2 1 Create),
      ([30], registry_request 2 1 Write), ([31], registry_request 2 1 Release),
      ([32], registry_request 2 1 Read), ([33], registry_request 2 1 Delete),
      ([34], registry_request 1 2 Create), ([35], registry_request 1 2 Read),
      ([36], registry_request 1 2 Release), ([37], registry_request 1 2 Delete),
      ([38], registry_response (Success 1)), ([39], registry_response (Success 2)),
      ([40], registry_response (Wait 1)), ([41], registry_response (Wait 2)),
      ([42], registry_response (key_exists 1)), ([43], registry_response (Holder 1 (demo_addr 2))),
      ([44], registry_response (Holder 2 (demo_addr 2))), ([45], Data (DataRequest 1)),
      ([46], Data (DataResponse new_text))]"

abbreviation scenario_host :: host where
  "scenario_host \<equiv> table_host scenario_table"

lemma scenario_speaks: "speaks scenario_host"
  unfolding speaks_def by (simp, rule table_codec) (simp_all add: scenario_table_def)

lemma scenario_eval [simp]:
  "table_ser scenario_table (registry_connection 1) = Ok [20]"
  "table_ser scenario_table (registry_connection 2) = Ok [21]"
  "table_ser scenario_table (registry_connection_established 1) = Ok [22]"
  "table_ser scenario_table (registry_connection_established 2) = Ok [23]"
  "table_ser scenario_table (registry_request 1 1 t) =
     Ok [case t of Create \<Rightarrow> 24 | Write \<Rightarrow> 25 | Release \<Rightarrow> 26 | Read \<Rightarrow> 27 | Delete \<Rightarrow> 28]"
  "table_ser scenario_table (registry_request 2 1 t) =
     Ok [case t of Create \<Rightarrow> 29 | Write \<Rightarrow> 30 | Release \<Rightarrow> 31 | Read \<Rightarrow> 32 | Delete \<Rightarrow> 33]"
  "table_ser scenario_table (registry_request 1 2 Create) = Ok [34]"
  "table_ser scenario_table (registry_request 1 2 Read) = Ok [35]"
  "table_ser scenario_table (registry_request 1 2 Release) = Ok [36]"
  "table_ser scenario_table (registry_request 1 2 Delete) = Ok [37]"
  "table_ser scenario_table (Data (DataRequest 1)) = Ok [45]"
  "table_ser scenario_table (Data (DataResponse new_text)) = Ok [46]"
  by (cases t; simp add: table_ser_def scenario_table_def message_defs)+

lemma scenario_can_write [simp]:
  "can_write scenario_host (Success 1)" "can_write scenario_host (Success 2)"
  "can_write scenario_host (Wait 1)" "can_write scenario_host (Wait 2)"
  "can_write scenario_host (key_exists 1)" "can_write scenario_host (Holder 1 (demo_addr 2))"
  "can_write scenario_host (Holder 2 (demo_addr 2))"
  by (simp_all add: can_write_def table_ser_def scenario_table_def message_defs key_exists_def)

text \<open>A server to which the primary registry and the two clients have connected.\<close>

definition scenario_server :: RegistryServer where
  "scenario_server =
     (demo_new None)
       \<lparr>first_connection := False,
        token_stream_map :=
          [Token 1000 \<mapsto> peer [], Token 1 \<mapsto> (peer [])\<lparr>sent := [20, 10]\<rparr>,
           Token 2 \<mapsto> (peer [])\<lparr>sent := [21, 10]\<rparr>],
        token_addr_map := [Token 1 \<mapsto> demo_addr 2, Token 2 \<mapsto> demo_addr 3],
        poll := \<lparr>register_plan = [], registered = [Token 2, Token 1, Token 1000]\<rparr>,
        id_counter := 2\<rparr>"

lemma scenario_server_reachable: "rs_reachable scenario_server"
proof -
  have "accept_loop scenario_host [Inr (peer [], demo_addr 1), Inr (peer [], demo_addr 2),
      Inr (peer [], demo_addr 3)] (demo_new None) = (Ok (), scenario_server)"
    by (simp add: demo_new_def scenario_server_def handle_connection_eq greet_def register_def
        poll_register_def to_vec_def stream_write_all_def forward_request_def demo_poll_def peer_def)
  then have "serve_event scenario_host (PollEvent LISTENER True [Inr (peer [], demo_addr 1),
      Inr (peer [], demo_addr 2), Inr (peer [], demo_addr 3)] Min) (demo_new None) =
      (Ok True, scenario_server)"
    by simp
  then show ?thesis by (rule rs_reachable.event [OF demo_new_reachable])
qed

lemma scenario_ready: "ready {1, 2} scenario_server" "ready {1} scenario_server"
  using rs_reachable_inv [OF scenario_server_reachable]
  by (auto simp: ready_def scenario_server_def demo_new_def writable_def peer_def new_access_manager_def)

lemma scenario_server_simps [simp]:
  "token_addr_map scenario_server (Token 1) = Some (demo_addr 2)"
  "key_states (access_manager scenario_server) = Map.empty" "request_counter scenario_server = 0"
  by (simp_all add: scenario_server_def demo_new_def new_access_manager_def)

definition scenario_args :: "string list" where
  "scenario_args = [''client'', display_v4 0x7F000001 8888, display_v4 0x7F000001 8889]"

definition scenario_dial :: "byte \<Rightarrow> byte list list \<Rightarrow> nat \<Rightarrow> SocketAddr \<Rightarrow> dial" where
  "scenario_dial greeting lines i a =
     \<lparr>connection = Ok \<lparr>incoming = map Inr ([greeting, 10] # lines), at_end = None, write_plan = [], sent = []\<rparr>,
      read_timeout = Ok (), write_timeout = Ok ()\<rparr>"

lemma scenario_args_text:
  "display_v4 0x7F000001 8888 = ''127.0.0.1:8888''" "display_v4 0x7F000001 8889 = ''127.0.0.1:8889''"
  by (simp_all add: display_v4_def octets_def dec.simps char_of_def bit_0)

lemma scenario_starts:
  "starts scenario_host (scenario_dial 20 lines) scenario_args 1 lines"
  "starts scenario_host (scenario_dial 21 lines) scenario_args 2 lines"
proof -
  have "list_all (\<lambda>a. utf8_valid (map of_char a)) scenario_args"
    by (simp add: scenario_args_def scenario_args_text)
  then show "starts scenario_host (scenario_dial 20 lines) scenario_args 1 lines"
    "starts scenario_host (scenario_dial 21 lines) scenario_args 2 lines"
    unfolding starts_def scenario_args_def
    using parse_displayed_v4
    by (auto simp: to_vec_def scenario_dial_def)
qed



theorem basic_usage_end_to_end_witness:
  "\<exists>lines c. sent_to (serve_run scenario_host (basic_calls 1) scenario_server) (Token 1) =
       [20, 10] @ concat lines \<and>
     basic_usage scenario_host (scenario_dial 20 lines) (\<lambda>_. second_dial) scenario_args = Some (Ok (), Some c)"
proof -
  have "sent_to scenario_server (Token 1) = [20, 10]" by (simp add: sent_to_def scenario_server_def)
  with basic_usage_end_to_end [OF scenario_speaks scenario_ready(2), of "demo_addr 2"]
  show ?thesis
    using scenario_starts(1)
    by (simp add: hash_iter_Min basic_calls_def basic_said_def can_ask_def request_line_def to_vec_def) blast
qed

theorem advanced_usage_end_to_end_witness:
  "\<exists>lines c. sent_to (serve_run scenario_host (advanced_calls 1) scenario_server) (Token 1) =
       [20, 10] @ concat lines \<and>
     advanced_usage scenario_host (scenario_dial 20 lines) (\<lambda>_. second_dial) scenario_args = Some (Ok (), Some c)"
proof -
  have "sent_to scenario_server (Token 1) = [20, 10]" by (simp add: sent_to_def scenario_server_def)
  with advanced_usage_end_to_end [OF scenario_speaks scenario_ready(2), of "demo_addr 2"]
  show ?thesis
    using scenario_starts(1)
    by (simp add: hash_iter_Min advanced_calls_def advanced_said_def can_ask_def request_line_def to_vec_def)
      blast
qed

text \<open>The poll of the server of client 1, and the stream of the other client that asks for key 1.\<close>

definition scenario_poll :: Poll where
  "scenario_poll = \<lparr>register_plan = [], registered = []\<rparr>"

theorem p2p_end_to_end_witness:
  "\<exists>lines1 lines2 c1 c2 store2 ps.
     sent_to (serve_run scenario_host (p2p_calls 1 2) scenario_server) (Token 2) = [21, 10] @ concat lines2 \<and>
     p2p_thread scenario_host (Ok scenario_poll) (Ok ())
       [Inr (client1_events (asking [45, 10]) (demo_addr 3))] 6001 new_data_store = Ok ps \<and>
     p2p_client1 scenario_host True (scenario_dial 20 lines1) (\<lambda>_. second_dial) scenario_args =
       Some (Ok (), Some (c1, data_store ps)) \<and>
     sent (registry_stream c1) = [24, 10, 24, 10, 25, 10, 26, 10] \<and>
     p2p_client2 scenario_host True (scenario_dial 21 lines2) (\<lambda>_. second_dial)
       (\<lambda>_. Ok (chunked [[46, 10]])) scenario_args = Some (Ok (), Some (c2, store2)) \<and>
     sent (registry_stream c2) = [34, 10, 35, 10, 36, 10, 37, 10] \<and>
     ds_contents store2 = [1 \<mapsto> new_text]"
proof -
  have sent: "sent_to scenario_server (Token 2) = [21, 10]" by (simp add: sent_to_def scenario_server_def)
  have lines: "concat (map (request_line scenario_host) (calls_of 1 (p2p_calls 1 2))) = [24, 10, 24, 10, 25, 10, 26, 10]"
    "concat (map (request_line scenario_host) (calls_of 2 (p2p_calls 1 2))) = [34, 10, 35, 10, 36, 10, 37, 10]"
    by (simp_all add: calls_of_def p2p_calls_def request_line_def to_vec_def)
  have ask: "list_all (can_ask scenario_host) (p2p_calls 1 2)"
    by (simp add: p2p_calls_def can_ask_def request_line_def to_vec_def)
  have said: "list_all (\<lambda>x. can_write scenario_host (snd x)) (p2p_said 1 2 (demo_addr 2))"
    by (simp add: p2p_said_def)
  from p2p_end_to_end [OF scenario_speaks scenario_ready(1) _ _ _ _ ask said, of scenario_poll
      "asking [45, 10]" "[45, 10]" "[]" "[46, 10]" "chunked [[46, 10]]" "[]" "\<lambda>_. Ok (chunked [[46, 10]])"
      "demo_addr 3"]
  obtain lines1 lines2 ps where run:
    "sent_to (serve_run scenario_host (p2p_calls 1 2) scenario_server) (Token 2) = [21, 10] @ concat lines2"
    "p2p_thread scenario_host (Ok scenario_poll) (Ok ())
       [Inr (client1_events (asking [45, 10]) (demo_addr 3))] 6001 new_data_store = Ok ps"
    "data_store ps = client1_store"
    and clients: "\<And>dial1 argv1 dial2 argv2 d1 d2 info_on.
        starts scenario_host dial1 argv1 1 lines1 \<Longrightarrow> starts scenario_host dial2 argv2 2 lines2 \<Longrightarrow>
        \<exists>c1 c2 store2.
           p2p_client1 scenario_host info_on dial1 d1 argv1 = Some (Ok (), Some (c1, client1_store)) \<and>
           sent (registry_stream c1) = [24, 10, 24, 10, 25, 10, 26, 10] \<and>
           p2p_client2 scenario_host info_on dial2 d2 (\<lambda>_. Ok (chunked [[46, 10]])) argv2 =
             Some (Ok (), Some (c2, store2)) \<and>
           sent (registry_stream c2) = [34, 10, 35, 10, 36, 10, 37, 10] \<and>
           ds_contents store2 = [1 \<mapsto> new_text]"
    by (fastforce simp: sent lines scenario_poll_def asking_def to_vec_def)
  from clients [OF scenario_starts, of True "\<lambda>_. second_dial" "\<lambda>_. second_dial"] obtain c1 c2 store2 where
    "p2p_client1 scenario_host True (scenario_dial 20 lines1) (\<lambda>_. second_dial) scenario_args =
       Some (Ok (), Some (c1, client1_store))"
    "sent (registry_stream c1) = [24, 10, 24, 10, 25, 10, 26, 10]"
    "p2p_client2 scenario_host True (scenario_dial 21 lines2) (\<lambda>_. second_dial)
       (\<lambda>_. Ok (chunked [[46, 10]])) scenario_args = Some (Ok (), Some (c2, store2))"
    "sent (registry_stream c2) = [34, 10, 35, 10, 36, 10, 37, 10]" "ds_contents store2 = [1 \<mapsto> new_text]"
    by blast
  with run show ?thesis
    by (intro exI [of _ lines1] exI [of _ lines2] exI [of _ c1] exI [of _ c2] exI [of _ store2] exI [of _ ps]) simp
qed

section \<open>The arguments of the server\<close>

text \<open>The server that the two arguments ask for.\<close>

definition started_server ::
  "host \<Rightarrow> (SocketAddr \<Rightarrow> (io_error, TcpStream) outcome) \<Rightarrow> (io_error, Poll) outcome \<Rightarrow>
     (io_error, unit) outcome \<Rightarrow> (io_error + poll_event list) list \<Rightarrow> u16 \<Rightarrow> SocketAddr option \<Rightarrow>
     (RegistryServerError, (bool \<times> RegistryServer) option) outcome"
where
  "started_server h connect new_poll listen polls port secondary =
     bind_outcome (new_registry_server connect new_poll port secondary) (\<lambda>s.
       let (r, s) = bind_server h listen polls s in map_ok (\<lambda>running. Some (running, s)) r)"

text \<open>
  C32: What the registry server makes of its arguments, on every branch: without a port it ends at once,
  a port that is no \<open>u16\<close> panics, and an address of a backup that does not parse is silently
  ignored: the server then starts without a backup, as if no address had been given.
\<close>

theorem server_arguments:
  assumes "list_all (\<lambda>a. utf8_valid (map of_char a)) argv"
  shows "server_main h connect new_poll listen polls argv =
     (case argv of
        [] \<Rightarrow> Panic OutOfBounds
      | [name] \<Rightarrow> Ok None
      | name # port # rest \<Rightarrow>
          (case parse_u16 port of
             None \<Rightarrow> Panic UnwrapErr
           | Some p \<Rightarrow>
               started_server h connect new_poll listen polls p
                 (case rest of [] \<Rightarrow> None | secondary # _ \<Rightarrow> parse_socket_addr secondary)))"
  using assms
  by (auto simp: server_main_def collect_args_def index_arg_def expect_parsed_def started_server_def
      split: list.split option.split)

theorem server_arguments_witness:
  "server_main demo_host (\<lambda>_. Ok (peer [])) (Ok demo_poll) (Ok ()) [] [''server'', ''80x''] = Panic UnwrapErr \<and>
   server_main demo_host (\<lambda>_. Ok (peer [])) (Ok demo_poll) (Ok ()) [] [''server'', ''80'', ''localhost:81''] =
     started_server demo_host (\<lambda>_. Ok (peer [])) (Ok demo_poll) (Ok ()) [] 80 None"
proof -
  have "parse_u16 ''80x'' = None" "parse_u16 ''80'' = Some 80"
    by (simp_all add: parse_u16_def to_digit_def digit_value_def)
  moreover have "parse_socket_addr ''localhost:81'' = None"
    by (simp add: parse_socket_addr_def read_socket_addr_v4_def read_socket_addr_v6_def read_ipv4_addr_def
        read_octet_def read_separator_def read_number_def and_read_def to_digit_def digit_value_def)
  ultimately show ?thesis by (simp add: server_arguments)
qed

text \<open>
  C33: The server reads what is displayed: for every port and every IPv4 socket address, the texts
  they are displayed with start the server with this port and this backup.
\<close>

theorem command_line_roundtrip:
  assumes "utf8_valid (map of_char name)"
  shows "server_main h connect new_poll listen polls [name, dec (unat port), display_v4 ip other] =
     started_server h connect new_poll listen polls port (Some (SocketAddrV4 ip other))"
proof -
  have "collect_args [name, dec (unat port), display_v4 ip other] =
      (Ok [name, dec (unat port), display_v4 ip other] :: (RegistryServerError, string list) outcome)"
    using assms by (simp add: collect_args_def dec_utf8 display_utf8)
  then show ?thesis
    by (simp add: server_main_def index_arg_def expect_parsed_def started_server_def parse_u16_dec
        parse_displayed_v4)
qed

theorem command_line_roundtrip_witness:
  "server_main demo_host (\<lambda>_. Ok (peer [])) (Ok demo_poll) (Ok ()) [] [''server'', dec 4000, display_v4 1 4001] =
     started_server demo_host (\<lambda>_. Ok (peer [])) (Ok demo_poll) (Ok ()) [] 4000 (Some (SocketAddrV4 1 4001))"
  using command_line_roundtrip [of "''server''" demo_host _ _ _ _ 4000 1 4001] by simp

end
