(* ===== verification/Spec2Isabelle.thy ===== *)
theory Spec2Isabelle
  imports Access_Manager_Claims Access_Manager_Tests Registry_Claims Registry_Safety Registry_Mirror Program_Claims
begin

text \<open>
  Verification of soros, a distributed key-value store: clients keep their data themselves and read it
  from each other, and a registry server hands out the access to the keys with a fair read-write
  lock for each key.

  \<^bold>\<open>The parts of the program, their theories, and how they correspond to the code\<close>

  \<^item> \<open>Prelude\<close>: machine integers, the outcome of a Rust function (a value, an error, a panic, the end of
    the process), and actions, which stand for methods with a \<open>&mut self\<close> receiver and return the
    new state with every outcome. Its locales are \<open>guarded_object\<close> (an invariant that every operation
    keeps, under which no outcome is bad) and \<open>simulation\<close>.
  \<^item> \<open>Channel\<close>: the channel of the standard library on which grants are announced, with the locale \<open>fifo\<close>.
  \<^item> \<open>Protocol\<close> (\<open>src/protocol.rs\<close>): the messages, the macros that build them, and the framing by
    newlines. The JSON functions are parameters. \<open>json_total\<close> states that they return, \<open>json_codec\<close>
    that they read back what they wrote and write no newline.
  \<^item> \<open>Access_Manager\<close> (\<open>src/access_manager.rs\<close>): \<open>KeyState\<close>, \<open>AccessManager\<close> and one action for each method
    (\<open>read\<close> and \<open>write\<close> are \<open>read_access\<close> and \<open>write_access\<close>). The iteration order of the hash set, from
    which \<open>holder\<close> takes one element, is a parameter of every call. \<open>Access_Manager_Tests\<close> has the
    unit tests of the file.
  \<^item> \<open>Fair_Lock\<close>: the abstract specification of the access manager, a lock per key that is free,
    shared or exclusive with a queue, and the refinement.
  \<^item> \<open>Lock_Service\<close>: in which order, and after how many rounds of releases, requests are served.
  \<^item> \<open>Net\<close>: sockets, the poll of mio, UTF-8 and the decimal display of numbers. A stream carries the
    results of its next reads and writes as data, so a theorem for every stream is one
    for every behaviour of the network. A blocking read that waits for ever is not a result of a
    stream; a stream ends with the end of file or with an error such as a time-out.
  \<^item> \<open>Registry_Server\<close> (\<open>src/registry_server.rs\<close>): the record of the server and one action for each
    method; \<open>bind\<close> is \<open>bind_server\<close>, with its loops as functions on the lists of what \<open>poll\<close> and
    \<open>accept\<close> report. The parts of \<open>handle_message\<close> and \<open>handle_request\<close> have names of their own.
  \<^item> \<open>Protocol_Client\<close> (\<open>src/protocol_client.rs\<close>): the client library. Its reading loop need not end, so
    what uses it gives \<open>None\<close> when it never returns. \<open>registry_stop\<close> is \<open>registry_stop_server\<close>.
  \<^item> \<open>Data_Store\<close> and \<open>P2P_Server\<close> (\<open>src/p2p_server.rs\<close>): the store behind its mutexes, with poisoning,
    as an instance of the locale \<open>key_value_store\<close>; and the peer-to-peer server, whose
    events interleave with the operations of the application on the shared store.
  \<^item> \<open>Address\<close>: the parsers of the standard library for \<open>u16\<close> and \<open>SocketAddr\<close> (IPv4 and IPv6, with embedded
    IPv4 addresses, \<open>::\<close> and scopes), and the display of IPv4 addresses.
  \<^item> \<open>Programs\<close> (\<open>src/bin/server.rs\<close>, \<open>src/bin/client.rs\<close>): \<open>server_main\<close> and the example client. A scenario that
    works on a client has its calls in a definition of its own (\<open>client1_body\<close>, \<open>client2_body\<close>, \<open>basic_body\<close>,
    \<open>advanced_body\<close>), to which the function of the program adds the arguments and the connection.
    The thread of the peer-to-peer server (\<open>p2p_thread\<close>) shares its data store with the client: the steps of
    the two threads are one list of tagged events (\<open>thread_event\<close>), and \<open>shared_bind\<close> is \<open>p2p_bind\<close> with the
    operations of the owner of the store among the events of the server (\<open>shared_bind_peers\<close>).
    The macro \<open>handle_wait_error!\<close> they use is in \<open>Protocol_Client\<close>.

  The registry server calls the access manager (\<open>on_manager\<close>) and collects its announcements after
  each request; the client library and the registry exchange the messages of \<open>Protocol\<close>; the
  peer-to-peer server answers the \<open>p2p_read\<close> of the client library from the data store; the
  programs start a server, or run the calls of the library against one.

  \<^bold>\<open>What the lemmas show\<close>

  \<^item> \<open>Access_Manager_Claims\<close>: mutual exclusion, no barging, first in first out, progress if holders
    release, refinement of the fair lock, no panic, and the branches of each operation.
  \<^item> \<open>Registry_Invariant\<close>: the footprint of each handler, the invariant \<open>rs_inv\<close> of the server, its
    reachable states, and when a handler panics. \<open>Registry_Requests\<close>: the locks and the answer
    after a request. \<open>Registry_Delivery\<close>: who is sent what. \<open>Registry_Claims\<close> has the properties, and
    \<open>Registry_Demo\<close> the concrete servers of their witnesses. \<open>Registry_Safety\<close>: which events can take a lock
    from a process, and what becomes of requests that arrive together. \<open>Registry_Mirror\<close>: what a primary
    writes to its backup, and the locks of the backup once it has handled it.
  \<^item> \<open>Client_Lines\<close> and \<open>Client_Claims\<close>: framing under any chunks, the end of the stream, time-outs, the change
    to the secondary registry, the calls that wait, and the message that is held but not returned.
  \<^item> \<open>Sessions\<close> and this theory: a call of the client library and the registry together, and a read
    from a peer.
  \<^item> \<open>Server_Runs\<close>: a registry that serves the requests of several clients one after the other. \<open>transcript\<close>
    says who is told what, without streams and bytes; \<open>serve_transcript\<close> shows that the server, at work
    on the bytes, writes exactly this to the clients, \<open>transcript_lock\<close> and \<open>transcript_says\<close> that
    the locks and what is said to whom are those of the specification.
  \<^item> \<open>Scenarios\<close>: the equations of the calls of a client whose responses arrive line by line
    (\<open>at_point\<close>), and those of the requests at a registry with given locks (\<open>locked\<close>). With them
    \<open>Program_Claims\<close> shows that the scenarios of the example client return \<open>Ok\<close> against the registry and write
    exactly the requests it serves, that the text of one client reaches the other through the
    store it shares with its peer-to-peer thread, that a run of requests behind the network refines
    the fair lock, and what the server makes of its arguments.

  Several properties state what the code does where it does not do what it means to: the client
  with number 999, the grants lost when a creator has gone, the lock kept by a client that
  disconnects or by a refused reader, the primary server that exits after one request, the client
  that does not notice a closed connection or a message it already holds, the requests lost when they
  arrive together, the backup address that is ignored, and the texts too long for a peer to read.

  \<^bold>\<open>Bounds\<close>

  \<open>usize\<close> is taken at 64 bits. The counters are words; an increment at the maximum is a panic, as in a
  build with overflow checks, and theorems name the bound where it matters. Nothing uses fuel:
  the loops over queues, grants and events are structural or have a measure, and the
  reading loop of the client is a partial function.

  \<^bold>\<open>What is not modelled\<close>

  Logging, except for arguments of log macros that can panic or that read the data store; the pauses
  of the example client, whose order of requests is an argument of the theorems on runs, and the
  panic of \<open>println!\<close> on a closed standard output; \<open>registry_benchmark.rs\<close>, which calls an older interface of
  the library and does not compile against it; scripts and build files. The text of a JSON
  message is not modelled, so the theorems on the sizes of messages name them as hypotheses.
\<close>

section \<open>A client and the registry\<close>

text \<open>
  C4: A call of the client library has the effect and the result of the lock. A client calls create,
  delete or write; what it writes to its connection is one request, exactly the bytes that arrive
  at a reachable registry, which the registry reads whole; the bytes the registry then writes to the
  stream of the client arrive at the client, in any chunks. Then the registry goes on, its locks
  become what the request makes of them (\<open>am_step\<close>), and \<open>registry_create\<close> and \<open>registry_delete\<close> return success exactly if the key was
  new or was held by nobody, the text of the registry's error otherwise, and the wait for
  a write returns the key at once exactly if nobody held it.
\<close>

theorem client_call_end_to_end:
  assumes "rs_reachable s" and "json_codec (ser h) (de h)" and "\<not> debug_on h"
    and "can_write h (answer_to (call_outcome t k (key_states (access_manager s) k)))"
    and "writable s" and "backup_stream s = None" and "request_counter s \<noteq> - 1"
    and "buffer (access_granted (access_manager s)) = []"
    and "token_stream_map s tok = Some st" and "tok \<noteq> backup_token s"
    and "to_vec (ser h) (registry_request k (client_id c) t) = Ok data" and "length data \<le> 256"
    and "incoming st = Inr data # later"
    and "write_plan (registry_stream c) = []" and "only_bytes (registry_stream c)" and "curr_data c = []"
    and "sent_to (snd (handle_data h tok s)) tok = sent_to s tok @ bytes_of (registry_stream c)"
    and "t = Create \<or> t = Delete \<or> t = Write"
  shows "fst (handle_data h tok s) = Ok () \<and>
     access_manager (snd (handle_data h tok s)) = snd (am_step (pick h, Call (client_id c) t k) (access_manager s)) \<and>
     (t = Create \<longrightarrow> (\<exists>c'. sent (registry_stream c') = sent (registry_stream c) @ data \<and>
        registry_create h d k c = Some (if key_states (access_manager s) k = None then Ok ()
              else Err (RegistryError (display_rs_error (AccessManager (KeyExists k)))), c'))) \<and>
     (t = Delete \<longrightarrow> (\<exists>c'. sent (registry_stream c') = sent (registry_stream c) @ data \<and>
        registry_delete h d k c = Some (case key_states (access_manager s) k of
                None \<Rightarrow> Err (RegistryError (display_rs_error (AccessManager (KeyNotFound k))))
              | Some ks \<Rightarrow>
                  if readers ks = {} \<and> writer ks = None then Ok ()
                  else Err (RegistryError (display_rs_error (AccessManager KeyAccessed))), c'))) \<and>
     (t = Write \<longrightarrow> (\<exists>c'. sent (registry_stream c') = sent (registry_stream c) @ data \<and>
        then_run (registry_write h d k c) (\<lambda>_. registry_await_write h) = Some (case key_states (access_manager s) k of
                None \<Rightarrow> Err (RegistryError (display_rs_error (AccessManager (KeyNotFound k))))
              | Some ks \<Rightarrow>
                  if readers ks = {} \<and> writer ks = None then Ok k else Err (WaitError k), c')))"
proof -
  from session [OF assms(1,2,4,3,5-18), of d] obtain c1 c2
    where hd: "fst (handle_data h tok s) = Ok ()"
      and am: "access_manager (snd (handle_data h tok s)) =
        snd (am_step (pick h, Call (client_id c) t k) (access_manager s))"
      and send: "registry_send_request h d k t c = Some (Ok (), c1)"
      and resp: "registry_handle_response h c1 =
        Some (response_result (answer_to (call_outcome t k (key_states (access_manager s) k))), c2)"
      and sent: "sent (registry_stream c2) = sent (registry_stream c) @ data"
    by blast
  show ?thesis
    using hd am send resp sent
    by (auto simp: registry_create_def registry_delete_def registry_write_def registry_await_write_def
        registry_expect_success_def call_outcome_def answer_to_def idle_def split: option.split)
qed

definition session_ser :: json_writer where
  "session_ser m =
     (if m = registry_request 0 7 Create then Ok [97]
      else if m = registry_response (Success 0) then Ok [98] else Err ''not in the table'')"

definition session_de :: json_reader where
  "session_de bs =
     (if bs = [97] \<or> bs = [97, 10] then Ok (registry_request 0 7 Create)
      else if bs = [98] \<or> bs = [98, 10] then Ok (registry_response (Success 0)) else Err ''no JSON'')"

definition session_host :: host where
  "session_host = \<lparr>ser = session_ser, de = session_de, pick = Min, error_on = True, debug_on = False\<rparr>"

definition session_server :: RegistryServer where
  "session_server =
     (demo_new None)
       \<lparr>first_connection := False,
        token_stream_map := [Token 1000 \<mapsto> peer [], Token 1 \<mapsto> (peer [[97, 10]])\<lparr>sent := [67, 10]\<rparr>],
        token_addr_map := [Token 1 \<mapsto> demo_addr 2],
        poll := \<lparr>register_plan = [], registered = [Token 1, Token 1000]\<rparr>,
        id_counter := 1\<rparr>"

lemma session_server_reachable: "rs_reachable session_server"
proof -
  have "serve_event demo_host (PollEvent LISTENER True
      [Inr (peer [], demo_addr 1), Inr (peer [[97, 10]], demo_addr 2)] Min) (demo_new None) =
      (Ok True, session_server)"
    by (simp add: demo_new_def session_server_def connection_eval)
  then show ?thesis by (rule rs_reachable.event [OF demo_new_reachable])
qed

theorem client_call_end_to_end_witness:
  "\<exists>c'. sent (registry_stream c') = [97, 10] \<and>
     registry_create session_host second_dial 0 (demo_client [[98], [10]]) = Some (Ok (), c')"
proof -
  have codec: "json_codec session_ser session_de"
    by (auto simp: json_codec_def json_total_def session_ser_def session_de_def message_defs)
  have "sent_to (snd (handle_data session_host (Token 1) session_server)) (Token 1) = [67, 10, 98, 10]"
    by (simp add: session_server_def session_host_def demo_new_def sent_to_def handle_data_def
        stream_read_def peer_def answer_request_def handle_request_def parse_logged_def from_slice_def
        session_de_def registry_request_def handle_message_def success_response_eq create_eq
        put_key_state_def handle_response_def to_vec_def session_ser_def registry_response_def
        stream_write_all_def collect_requests_def collect_granted_def try_iter_def
        forward_request_def count_request_def checked_succ_def new_access_manager_def channel_new_def)
  then show ?thesis
    using client_call_end_to_end [OF session_server_reachable, of session_host Create 0 "Token 1"
        "(peer [[97, 10]])\<lparr>sent := [67, 10]\<rparr>" "demo_client [[98], [10]]" "[97, 10]" "[]" second_dial] codec
    by (auto simp: session_server_def session_host_def demo_new_def sent_to_def writable_def peer_def
        can_write_def call_outcome_def answer_to_def session_ser_def registry_response_def
        registry_request_def new_access_manager_def channel_new_def to_vec_def)
qed

section \<open>A client and a peer\<close>

text \<open>
  C11: A read from a peer returns the current text, if both messages take at most 256 bytes and each
  arrives in one chunk. The bytes \<open>p2p_read\<close> writes to its connection are those that arrive at the
  peer-to-peer server, and the bytes the server writes are those that arrive at the client:
  then \<open>p2p_read\<close> returns the text that the data store of the peer has for the key, and the server
  changes nothing but this stream.
\<close>

theorem peer_read_end_to_end:
  assumes "p2p_reachable s" and "json_codec (ser h) (de h)" and "\<not> debug_on h"
    and "peer_stream_map s tok = Some st" and "incoming st = Inr data # later" and "write_plan st = []"
    and "to_vec (ser h) (Data (DataRequest k)) = Ok data" and "length data \<le> 256"
    and "ds_contents (data_store s) k = Some text"
    and "to_vec (ser h) (Data (DataResponse text)) = Ok bytes" and "length bytes \<le> 256"
    and "write_plan conn = []" and "incoming conn = Inr bytes # others"
  shows "p2p_handle_data h tok s = (Ok (), s\<lparr>peer_stream_map := (peer_stream_map s)
       (tok \<mapsto> st\<lparr>incoming := later, sent := sent st @ bytes\<rparr>)\<rparr>) \<and>
     p2p_read h (Ok conn) k = (Ok text, Some (conn\<lparr>incoming := others, sent := sent conn @ data\<rparr>))"
proof (rule peer_exchange [OF _ assms(2-13)])
  show "ds_inv (data_store s)" using p2p_reachable_inv [OF assms(1)] by (simp add: p2p_inv_def)
qed

definition hi_ser :: json_writer where
  "hi_ser m =
     (if m = Data (DataRequest 1) then Ok [49]
      else if m = Data (DataResponse ''hi'') then Ok [104, 105] else Err ''not in the table'')"

definition hi_de :: json_reader where
  "hi_de bs =
     (if bs = [49] \<or> bs = [49, 10] then Ok (Data (DataRequest 1))
      else if bs = [104, 105] \<or> bs = [104, 105, 10] then Ok (Data (DataResponse ''hi''))
      else Err ''no JSON'')"

definition hi_host :: host where
  "hi_host = \<lparr>ser = hi_ser, de = hi_de, pick = Min, error_on = True, debug_on = False\<rparr>"

definition hi_server :: P2PServer where
  "hi_server =
     demo_p2p_new\<lparr>peer_stream_map := [Token 1 \<mapsto> asking [49, 10]],
       peer_poll := \<lparr>register_plan = [], registered = [Token 1]\<rparr>, token_counter := 1\<rparr>"

lemma hi_server_reachable: "p2p_reachable hi_server"
  by (rule p2p_reachable.event [OF demo_p2p_new_reachable, of hi_host
        "PeerEvent (Token 0) True [Inr (asking [49, 10], SocketAddrV4 1 1)]"])
     (simp add: hi_server_def demo_p2p_new_def p2p_handle_connection_def checked_succ_def
       p2p_register_def poll_register_def)

theorem peer_read_end_to_end_witness:
  "p2p_read hi_host (Ok (chunked [[104, 105, 10]])) 1 =
     (Ok ''hi'', Some ((chunked [])\<lparr>sent := [49, 10]\<rparr>))"
proof -
  have "json_codec hi_ser hi_de"
    by (auto simp: json_codec_def json_total_def hi_ser_def hi_de_def)
  then show ?thesis
    using peer_read_end_to_end [OF hi_server_reachable, of hi_host "Token 1" "asking [49, 10]" "[49, 10]"
        "[]" 1 "''hi''" "[104, 105, 10]" "chunked [[104, 105, 10]]" "[]"]
    by (simp add: hi_host_def hi_server_def demo_p2p_new_def asking_def to_vec_def hi_ser_def
        demo_store_contents)
qed

text \<open>
  C30: A long text cannot be read from a peer. If its message has more than 256 bytes, \<open>p2p_read\<close> parses the
  first 256 bytes alone; with a JSON library that refuses a message that was cut off, the
  result is a serialisation error, whatever else arrives.
\<close>

theorem long_text_unreadable:
  assumes "\<not> debug_on h" and "to_vec (ser h) (Data (DataRequest k)) = Ok data"
    and "ser h (Data (DataResponse body)) = Ok json" and "256 < length json"
    and "\<And>m bs n. ser h m = Ok bs \<Longrightarrow> n < length bs \<Longrightarrow> \<exists>e. de h (take n bs) = Err e"
    and "write_plan conn = []" and "incoming conn = Inr (json @ [newline] @ rest) # others"
  shows "\<exists>e. fst (p2p_read h (Ok conn) k) = Err (ClientSerializationError e)"
proof -
  obtain e where "de h (take 256 json) = Err e" using assms(5) [OF assms(3,4)] by blast
  moreover have "take 256 (json @ [newline] @ rest) = take 256 json" using assms(4) by simp
  ultimately show ?thesis
    using assms(1,2,6,7)
    by (simp add: p2p_read_def and_then_def stream_write_all_def stream_read_def from_slice_def)
qed

definition long_ser :: json_writer where
  "long_ser m =
     (if m = Data (DataRequest 1) then Ok [49]
      else if m = Data (DataResponse (replicate 257 (CHR ''a''))) then Ok (replicate 257 97)
      else Err ''not in the table'')"

definition long_de :: json_reader where
  "long_de bs =
     (if bs = [49] then Ok (Data (DataRequest 1))
      else if bs = replicate 257 97 then Ok (Data (DataResponse (replicate 257 (CHR ''a''))))
      else Err ''EOF while parsing'')"

definition long_host :: host where
  "long_host = \<lparr>ser = long_ser, de = long_de, pick = Min, error_on = True, debug_on = False\<rparr>"

lemma long_prefix:
  assumes "long_ser m = Ok bs" and "n < length bs"
  shows "\<exists>e. long_de (take n bs) = Err e"
proof -
  have "bs = [49] \<or> bs = replicate 257 97" using assms(1) by (auto simp: long_ser_def split: if_splits)
  then show ?thesis
  proof
    assume "bs = replicate 257 97"
    then have "n < 257" and "take n bs = replicate n 97" using assms(2) by simp_all
    moreover have "replicate n (97 :: byte) \<noteq> [49]" by (cases n) simp_all
    moreover have "replicate n (97 :: byte) \<noteq> replicate 257 97"
      using \<open>n < 257\<close> by (auto dest: arg_cong [of _ _ length])
    ultimately show ?thesis by (simp add: long_de_def)
  qed (use assms(2) in \<open>simp add: long_de_def\<close>)
qed

theorem long_text_unreadable_witness:
  "\<exists>e. fst (p2p_read long_host (Ok (chunked [replicate 257 97 @ [10]])) 1) = Err (ClientSerializationError e)"
  by (rule long_text_unreadable [where data = "[49, 10]" and body = "replicate 257 (CHR ''a'')" and
        json = "replicate 257 97" and rest = "[]"])
     (auto simp: long_host_def long_prefix to_vec_def long_ser_def)

end
